theory Spec2Isabelle
  imports Complex_Main
begin

section \<open>Text, numbers and JSON values as the Python code sees them\<close>

text \<open>
  The development embeds the extraction pipeline of \<^verbatim>\<open>facture_v1.py\<close>:
  \<^verbatim>\<open>clean_markdown_json\<close>, \<^verbatim>\<open>extract_first_json_candidate\<close>,
  \<^verbatim>\<open>remove_trailing_commas\<close>, \<^verbatim>\<open>try_ast_literal_eval\<close>,
  \<^verbatim>\<open>tolerant_parse_json_from_text\<close>, \<^verbatim>\<open>normalize_number\<close>,
  \<^verbatim>\<open>parse_llm_response\<close> and \<^verbatim>\<open>extract_order_data\<close>.

  A Python \<^verbatim>\<open>str\<close> is a sequence of Unicode code points, so a text is a list of
  naturals; \<open>ascii\<close> turns an ASCII literal into such a list.
\<close>

type_synonym ustring = "nat list"

definition ascii :: "string \<Rightarrow> ustring" where
  "ascii s = map of_char s"

abbreviation cp :: "char \<Rightarrow> nat" where
  "cp c \<equiv> of_char c"

text \<open>
  A Python \<^verbatim>\<open>float\<close>. \<open>Fin r\<close> stands for the binary64 value nearest to the rational
  \<open>r\<close>; the model keeps \<open>r\<close> itself, so rounding to 53 bits is not modelled. What is
  modelled is the range: a magnitude that rounds beyond the largest binary64 is an
  infinity (or an \<^verbatim>\<open>OverflowError\<close> when converting an \<^verbatim>\<open>int\<close>), and a
  magnitude that rounds to zero is zero.
\<close>

datatype pyfloat = Fin rat | PInf | NInf | NaN

datatype json =
    JNull
  | JBool bool
  | JInt int
  | JFloat pyfloat
  | JStr ustring
  | JArr "json list"
  | JObj "(ustring \<times> json) list"

datatype pyerror =
    ValueError ustring
  | OverflowError
  | AttributeError
  | TypeError
  | KeyError

text \<open>
  What the code takes from Python's library and what this development leaves open.
  Every definition below takes the library as its first argument, and every theorem holds
  for any library.
  \<^item> \<open>unicode_decimal\<close>: the decimal digit value of a code point above ASCII
    (\<^verbatim>\<open>Py_UNICODE_TODECIMAL\<close>), used by \<^verbatim>\<open>\d\<close> and by \<^verbatim>\<open>float\<close>;
  \<^item> \<open>unicode_word\<close>: whether a code point above ASCII is a word character of
    \<^verbatim>\<open>\b\<close>;
  \<^item> \<open>json_dumps\<close>: \<^verbatim>\<open>json.dumps\<close>;
  \<^item> \<open>py_str\<close>: \<^verbatim>\<open>str\<close> of a list or a dict;
  \<^item> \<open>ast_literal_eval\<close>: \<^verbatim>\<open>ast.literal_eval\<close>, \<open>None\<close> when it raises.
\<close>

record pylib =
  unicode_decimal :: "nat \<Rightarrow> nat option"
  unicode_word :: "nat \<Rightarrow> bool"
  json_dumps :: "json \<Rightarrow> ustring"
  py_str :: "json \<Rightarrow> ustring"
  ast_literal_eval :: "ustring \<Rightarrow> json option"

subsection \<open>Character classes and string methods\<close>

text \<open>\<^verbatim>\<open>str.isspace\<close> of one code point, which is also \<^verbatim>\<open>\s\<close> of \<^verbatim>\<open>re\<close> on a
  \<^verbatim>\<open>str\<close> pattern.\<close>

definition py_isspace :: "nat \<Rightarrow> bool" where
  "py_isspace c \<longleftrightarrow>
     (9 \<le> c \<and> c \<le> 13) \<or> (28 \<le> c \<and> c \<le> 32) \<or> c = 133 \<or> c = 160 \<or> c = 5760 \<or>
     (8192 \<le> c \<and> c \<le> 8202) \<or> c = 8232 \<or> c = 8233 \<or> c = 8239 \<or> c = 8287 \<or> c = 12288"

definition is_ascii_digit :: "nat \<Rightarrow> bool" where
  "is_ascii_digit c \<longleftrightarrow> 48 \<le> c \<and> c \<le> 57"

text \<open>The digit value of a decimal digit, ASCII or not.\<close>

definition to_decimal :: "pylib \<Rightarrow> nat \<Rightarrow> nat option" where
  "to_decimal L c =
     (if is_ascii_digit c then Some (c - 48)
      else if c < 128 then None
      else unicode_decimal L c)"

text \<open>\<^verbatim>\<open>\d\<close> of \<^verbatim>\<open>re\<close> on a \<^verbatim>\<open>str\<close> pattern.\<close>

definition re_digit :: "pylib \<Rightarrow> nat \<Rightarrow> bool" where
  "re_digit L c \<longleftrightarrow> to_decimal L c \<noteq> None"

definition lstrip :: "ustring \<Rightarrow> ustring" where
  "lstrip s = dropWhile py_isspace s"

definition rstrip :: "ustring \<Rightarrow> ustring" where
  "rstrip s = rev (dropWhile py_isspace (rev s))"

definition strip :: "ustring \<Rightarrow> ustring" where
  "strip s = rstrip (lstrip s)"

text \<open>\<^verbatim>\<open>s.replace(old, new)\<close> for a one-character \<^verbatim>\<open>old\<close>, the only use the code
  makes of it.\<close>

definition replace_char :: "nat \<Rightarrow> ustring \<Rightarrow> ustring \<Rightarrow> ustring" where
  "replace_char old new s = concat (map (\<lambda>c. if c = old then new else [c]) s)"

definition lower_ascii :: "nat \<Rightarrow> nat" where
  "lower_ascii c = (if 65 \<le> c \<and> c \<le> 90 then c + 32 else c)"

subsection \<open>\<^verbatim>\<open>float(...)\<close>\<close>

definition float_overflow :: rat where
  "float_overflow = 2 ^ 1024 - 2 ^ 970"

definition float_underflow :: rat where
  "float_underflow = 1 / 2 ^ 1075"

definition to_float :: "rat \<Rightarrow> pyfloat" where
  "to_float r =
     (if float_overflow \<le> r then PInf
      else if r \<le> - float_overflow then NInf
      else if \<bar>r\<bar> \<le> float_underflow then Fin 0
      else Fin r)"

text \<open>\<^verbatim>\<open>float(n)\<close> of an \<^verbatim>\<open>int\<close>: an \<^verbatim>\<open>OverflowError\<close> beyond the range.\<close>

definition float_of_int :: "int \<Rightarrow> pyerror + pyfloat" where
  "float_of_int n =
     (if float_overflow \<le> \<bar>of_int n\<bar> then Inl OverflowError else Inr (Fin (of_int n)))"

fun digits_val :: "nat \<Rightarrow> ustring \<Rightarrow> nat" where
  "digits_val acc [] = acc"
| "digits_val acc (c # cs) = digits_val (10 * acc + (c - 48)) cs"

text \<open>The value \<open>m \<cdot> 10\<^sup>e\<close> of a decimal literal.\<close>

definition scale10 :: "int \<Rightarrow> int \<Rightarrow> rat" where
  "scale10 m e = (if 0 \<le> e then of_int m * 10 ^ nat e else of_int m / 10 ^ nat (- e))"

text \<open>The exponent part of a literal: nothing, or \<^verbatim>\<open>e\<close>, an optional sign and at
  least one digit, up to the end of the text.\<close>

definition parse_exponent :: "ustring \<Rightarrow> int option" where
  "parse_exponent s =
     (case s of
        [] \<Rightarrow> Some 0
      | c # r \<Rightarrow>
          if c = cp CHR ''e'' \<or> c = cp CHR ''E'' then
            (let (neg, ds) =
               (case r of
                  [] \<Rightarrow> (False, [])
                | d # r' \<Rightarrow>
                    if d = cp CHR ''-'' then (True, r')
                    else if d = cp CHR ''+'' then (False, r')
                    else (False, r))
             in if ds \<noteq> [] \<and> list_all is_ascii_digit ds
                then Some (if neg then - int (digits_val 0 ds) else int (digits_val 0 ds))
                else None)
          else None)"

text \<open>An unsigned decimal literal: digits, an optional point and digits, with a digit
  somewhere, then the exponent part.\<close>

definition parse_decimal :: "ustring \<Rightarrow> rat option" where
  "parse_decimal s =
     (let ip = takeWhile is_ascii_digit s;
          r1 = dropWhile is_ascii_digit s;
          has_point = (r1 \<noteq> [] \<and> hd r1 = cp CHR ''.'');
          fp = (if has_point then takeWhile is_ascii_digit (tl r1) else []);
          r2 = (if has_point then dropWhile is_ascii_digit (tl r1) else r1)
      in if ip = [] \<and> fp = [] then None
         else (case parse_exponent r2 of
                 None \<Rightarrow> None
               | Some e \<Rightarrow> Some (scale10 (int (digits_val 0 (ip @ fp))) (e - int (length fp)))))"

text \<open>A text after the sign has been read: \<^verbatim>\<open>inf\<close>, \<^verbatim>\<open>infinity\<close> and
  \<^verbatim>\<open>nan\<close> in any case, or a decimal literal.\<close>

definition parse_unsigned :: "bool \<Rightarrow> ustring \<Rightarrow> pyfloat option" where
  "parse_unsigned neg s =
     (let l = map lower_ascii s
      in if l = ascii ''inf'' \<or> l = ascii ''infinity'' then Some (if neg then NInf else PInf)
         else if l = ascii ''nan'' then Some NaN
         else (case parse_decimal s of
                 None \<Rightarrow> None
               | Some r \<Rightarrow> Some (to_float (if neg then - r else r))))"

definition parse_signed :: "ustring \<Rightarrow> pyfloat option" where
  "parse_signed s =
     (case s of
        [] \<Rightarrow> None
      | c # r \<Rightarrow>
          if c = cp CHR ''-'' then parse_unsigned True r
          else if c = cp CHR ''+'' then parse_unsigned False r
          else parse_unsigned False s)"

text \<open>Underscores are dropped when each one stands between two digits; any other
  underscore makes the text invalid. \<open>prev\<close> is the character before, 0 at the start.\<close>

fun strip_underscores :: "nat \<Rightarrow> ustring \<Rightarrow> ustring option" where
  "strip_underscores prev [] = (if prev = cp CHR ''_'' then None else Some [])"
| "strip_underscores prev (c # cs) =
     (if c = cp CHR ''_'' then
        (if is_ascii_digit prev then strip_underscores c cs else None)
      else if prev = cp CHR ''_'' \<and> \<not> is_ascii_digit c then None
      else map_option ((#) c) (strip_underscores c cs))"

text \<open>Before parsing, \<^verbatim>\<open>float\<close> maps every Unicode space to a blank and every Unicode
  decimal digit to its ASCII digit; at the first other character above ASCII it writes
  \<^verbatim>\<open>?\<close> and stops.\<close>

fun to_ascii_number :: "pylib \<Rightarrow> ustring \<Rightarrow> ustring" where
  "to_ascii_number L [] = []"
| "to_ascii_number L (c # cs) =
     (if c < 127 then c # to_ascii_number L cs
      else if py_isspace c then 32 # to_ascii_number L cs
      else (case to_decimal L c of
              Some d \<Rightarrow> (48 + d) # to_ascii_number L cs
            | None \<Rightarrow> [cp CHR ''?'']))"

definition c_isspace :: "nat \<Rightarrow> bool" where
  "c_isspace c \<longleftrightarrow> (9 \<le> c \<and> c \<le> 13) \<or> c = 32"

text \<open>\<^verbatim>\<open>float(s)\<close> of a \<^verbatim>\<open>str\<close>; \<open>None\<close> is the \<^verbatim>\<open>ValueError\<close>.\<close>

definition float_of_str :: "pylib \<Rightarrow> ustring \<Rightarrow> pyfloat option" where
  "float_of_str L s =
     (let a = to_ascii_number L s;
          t = rev (dropWhile c_isspace (rev (dropWhile c_isspace a)))
      in case strip_underscores 0 t of
           None \<Rightarrow> None
         | Some u \<Rightarrow> parse_signed u)"

section \<open>The number normalizer\<close>

text \<open>
  \<^verbatim>\<open>
  def normalize_number(s):
      if s is None:
          return None
      if isinstance(s, (int, float)):
          return float(s)
      s = str(s).strip().replace('\u00A0', ' ').replace(' ', '')
      if ',' in s and '.' in s:
          s = s.replace('.', '').replace(',', '.')
      else:
          s = s.replace(',', '.')
      s = re.sub(r'[^\d\.\-]', '', s)
      try:
          return float(s) if s != '' else None
      except ValueError:
          return None
  \<close>
  The argument is a value of the parsed JSON. \<^verbatim>\<open>bool\<close> is a subclass of
  \<^verbatim>\<open>int\<close>, so \<^verbatim>\<open>True\<close> and \<^verbatim>\<open>False\<close> take the numeric branch.
\<close>

definition keep_number_chars :: "pylib \<Rightarrow> ustring \<Rightarrow> ustring" where
  "keep_number_chars L s =
     filter (\<lambda>c. re_digit L c \<or> c = cp CHR ''.'' \<or> c = cp CHR ''-'') s"

definition normalize_text :: "pylib \<Rightarrow> ustring \<Rightarrow> pyfloat option" where
  "normalize_text L s0 =
     (let s1 = replace_char 32 [] (replace_char 160 [32] (strip s0));
          s2 = (if cp CHR '','' \<in> set s1 \<and> cp CHR ''.'' \<in> set s1
                then replace_char (cp CHR '','') [cp CHR ''.''] (replace_char (cp CHR ''.'') [] s1)
                else replace_char (cp CHR '','') [cp CHR ''.''] s1);
          s3 = keep_number_chars L s2
      in if s3 \<noteq> [] then float_of_str L s3 else None)"

fun normalize_number :: "pylib \<Rightarrow> json \<Rightarrow> pyerror + pyfloat option" where
  "normalize_number L JNull = Inr None"
| "normalize_number L (JBool b) = Inr (Some (Fin (if b then 1 else 0)))"
| "normalize_number L (JInt n) =
     (case float_of_int n of Inl e \<Rightarrow> Inl e | Inr f \<Rightarrow> Inr (Some f))"
| "normalize_number L (JFloat f) = Inr (Some f)"
| "normalize_number L (JStr s) = Inr (normalize_text L s)"
| "normalize_number L (JArr xs) = Inr (normalize_text L (py_str L (JArr xs)))"
| "normalize_number L (JObj kvs) = Inr (normalize_text L (py_str L (JObj kvs)))"

section \<open>Python dictionaries and truth values\<close>

text \<open>A \<^verbatim>\<open>dict\<close> keeps its keys in insertion order: an association list in which
  \<open>dict_set\<close> overwrites the value of a key already there and appends a new key.\<close>

type_synonym dict = "(ustring \<times> json) list"

definition dict_get :: "dict \<Rightarrow> ustring \<Rightarrow> json option" where
  "dict_get d k = map_of d k"

fun dict_set :: "ustring \<Rightarrow> json \<Rightarrow> dict \<Rightarrow> dict" where
  "dict_set k v [] = [(k, v)]"
| "dict_set k v (p # ps) = (if fst p = k then (k, v) # ps else p # dict_set k v ps)"

text \<open>\<^verbatim>\<open>bool(x)\<close>, as \<^verbatim>\<open>not\<close> and \<^verbatim>\<open>or\<close> use it.\<close>

fun truthy :: "json \<Rightarrow> bool" where
  "truthy JNull = False"
| "truthy (JBool b) = b"
| "truthy (JInt n) = (n \<noteq> 0)"
| "truthy (JFloat f) = (f \<noteq> Fin 0)"
| "truthy (JStr s) = (s \<noteq> [])"
| "truthy (JArr xs) = (xs \<noteq> [])"
| "truthy (JObj kvs) = (kvs \<noteq> [])"

section \<open>Normalising the fields of one item\<close>

definition key_qte :: ustring where
  "key_qte = ascii ''Qt'' @ [233]"

definition key_pu :: ustring where
  "key_pu = ascii ''P.U. H.T.''"

definition key_total :: ustring where
  "key_total = ascii ''Total H.T.''"

definition key_tva :: ustring where
  "key_tva = ascii ''Taux TVA''"

definition key_items :: ustring where
  "key_items = ascii ''items''"

definition msg_nan_to_int :: ustring where
  "msg_nan_to_int = ascii ''cannot convert float NaN to integer''"

text \<open>\<^verbatim>\<open>int(x or 0)\<close> for \<^verbatim>\<open>x\<close> the result of \<^verbatim>\<open>normalize_number\<close>:
  \<^verbatim>\<open>None\<close> and \<^verbatim>\<open>0.0\<close> are false, so they give the \<^verbatim>\<open>0\<close> of the
  \<^verbatim>\<open>or\<close>; \<^verbatim>\<open>int\<close> of a float truncates towards zero and raises on an infinity
  and on a NaN.\<close>

definition trunc :: "rat \<Rightarrow> int" where
  "trunc r = (if 0 \<le> r then \<lfloor>r\<rfloor> else \<lceil>r\<rceil>)"

fun int_or_zero :: "pyfloat option \<Rightarrow> pyerror + int" where
  "int_or_zero None = Inr 0"
| "int_or_zero (Some (Fin r)) = Inr (trunc r)"
| "int_or_zero (Some PInf) = Inl OverflowError"
| "int_or_zero (Some NInf) = Inl OverflowError"
| "int_or_zero (Some NaN) = Inl (ValueError msg_nan_to_int)"

definition json_of_float :: "pyfloat option \<Rightarrow> json" where
  "json_of_float x = (case x of None \<Rightarrow> JNull | Some f \<Rightarrow> JFloat f)"

text \<open>
  \<^verbatim>\<open>
  if itm.get("Qt\u00e9") is not None:
      itm["Qt\u00e9"] = int(normalize_number(itm.get("Qt\u00e9")) or 0)
  \<close>
\<close>

definition normalize_quantity :: "pylib \<Rightarrow> dict \<Rightarrow> pyerror + dict" where
  "normalize_quantity L itm =
     (case dict_get itm key_qte of
        None \<Rightarrow> Inr itm
      | Some JNull \<Rightarrow> Inr itm
      | Some q \<Rightarrow>
          (case normalize_number L q of
             Inl e \<Rightarrow> Inl e
           | Inr x \<Rightarrow>
               (case int_or_zero x of
                  Inl e \<Rightarrow> Inl e
                | Inr n \<Rightarrow> Inr (dict_set key_qte (JInt n) itm))))"

text \<open>
  \<^verbatim>\<open>
  for field in ["P.U. H.T.", "Total H.T."]:
      if itm.get(field) is not None:
          itm[field] = normalize_number(itm.get(field))
  \<close>
\<close>

definition normalize_field :: "pylib \<Rightarrow> ustring \<Rightarrow> dict \<Rightarrow> pyerror + dict" where
  "normalize_field L field itm =
     (case dict_get itm field of
        None \<Rightarrow> Inr itm
      | Some JNull \<Rightarrow> Inr itm
      | Some v \<Rightarrow>
          (case normalize_number L v of
             Inl e \<Rightarrow> Inl e
           | Inr x \<Rightarrow> Inr (dict_set field (json_of_float x) itm)))"

text \<open>
  \<^verbatim>\<open>
  t = itm.get("Taux TVA")
  if isinstance(t, str):
      t2 = t.replace(',', '.').strip()
      if '%' in t2:
          try:
              itm["Taux TVA"] = float(t2.replace('%', '').strip())
          except:
              itm["Taux TVA"] = None
      else:
          try:
              itm["Taux TVA"] = float(re.sub(r'[^\d\.\-]', '', t2))
          except:
              itm["Taux TVA"] = None
  \<close>
\<close>

definition vat_of_text :: "pylib \<Rightarrow> ustring \<Rightarrow> pyfloat option" where
  "vat_of_text L t =
     (let t2 = strip (replace_char (cp CHR '','') [cp CHR ''.''] t)
      in if cp CHR ''%'' \<in> set t2
         then float_of_str L (strip (replace_char (cp CHR ''%'') [] t2))
         else float_of_str L (keep_number_chars L t2))"

definition normalize_vat :: "pylib \<Rightarrow> dict \<Rightarrow> dict" where
  "normalize_vat L itm =
     (case dict_get itm key_tva of
        Some (JStr t) \<Rightarrow> dict_set key_tva (json_of_float (vat_of_text L t)) itm
      | _ \<Rightarrow> itm)"

text \<open>The body of the loop, for an item that is a \<^verbatim>\<open>dict\<close>. An exception raised by
  one field leaves the loop and the function.\<close>

definition normalize_item :: "pylib \<Rightarrow> dict \<Rightarrow> pyerror + dict" where
  "normalize_item L itm =
     (case normalize_quantity L itm of
        Inl e \<Rightarrow> Inl e
      | Inr i1 \<Rightarrow>
          (case normalize_field L key_pu i1 of
             Inl e \<Rightarrow> Inl e
           | Inr i2 \<Rightarrow>
               (case normalize_field L key_total i2 of
                  Inl e \<Rightarrow> Inl e
                | Inr i3 \<Rightarrow> Inr (normalize_vat L i3))))"

text \<open>\<^verbatim>\<open>for itm in items\<close> over a list: an item that is not a \<^verbatim>\<open>dict\<close> has no
  \<^verbatim>\<open>get\<close>.\<close>

fun normalize_items :: "pylib \<Rightarrow> json list \<Rightarrow> pyerror + json list" where
  "normalize_items L [] = Inr []"
| "normalize_items L (JObj itm # rest) =
     (case normalize_item L itm of
        Inl e \<Rightarrow> Inl e
      | Inr itm' \<Rightarrow>
          (case normalize_items L rest of
             Inl e \<Rightarrow> Inl e
           | Inr rest' \<Rightarrow> Inr (JObj itm' # rest')))"
| "normalize_items L (x # rest) = Inl AttributeError"

text \<open>
  The part of \<^verbatim>\<open>extract_order_data\<close> that follows the parse:
  \<^verbatim>\<open>
  items = extracted.get("items", [])
  for itm in items:
      ...
  extracted["items"] = items
  return extracted
  \<close>
  A parsed value that is not a \<^verbatim>\<open>dict\<close> has no \<^verbatim>\<open>get\<close>. Iterating a
  non-empty string or a non-empty \<^verbatim>\<open>dict\<close> yields strings, which have no
  \<^verbatim>\<open>get\<close>; \<^verbatim>\<open>None\<close> and numbers cannot be iterated.
\<close>

definition normalize_extracted :: "pylib \<Rightarrow> json \<Rightarrow> pyerror + json" where
  "normalize_extracted L extracted =
     (case extracted of
        JObj d \<Rightarrow>
          (let items = (case dict_get d key_items of None \<Rightarrow> JArr [] | Some v \<Rightarrow> v)
           in case items of
                JArr xs \<Rightarrow>
                  (case normalize_items L xs of
                     Inl e \<Rightarrow> Inl e
                   | Inr xs' \<Rightarrow> Inr (JObj (dict_set key_items (JArr xs') d)))
              | JStr s \<Rightarrow>
                  if s = [] then Inr (JObj (dict_set key_items items d)) else Inl AttributeError
              | JObj kvs \<Rightarrow>
                  if kvs = [] then Inr (JObj (dict_set key_items items d)) else Inl AttributeError
              | _ \<Rightarrow> Inl TypeError)
      | _ \<Rightarrow> Inl AttributeError)"

section \<open>\<^verbatim>\<open>json.loads\<close>\<close>

text \<open>
  The decoder of Python's \<^verbatim>\<open>json\<close> module with its default settings, in two passes
  that accept the same texts and build the same values as its scanner: the text is cut
  into tokens, then the tokens are read by a machine with a stack of open containers.
  Not modelled: the interpreter's recursion limit on deeply nested texts and its limit
  on the number of digits of an integer literal.
\<close>

datatype token =
    TLBrace | TRBrace | TLBracket | TRBracket | TComma | TColon
  | TString ustring
  | TScalar json

definition json_space :: "nat \<Rightarrow> bool" where
  "json_space c \<longleftrightarrow> c = 32 \<or> c = 9 \<or> c = 10 \<or> c = 13"

definition hexval :: "nat \<Rightarrow> nat option" where
  "hexval c =
     (if 48 \<le> c \<and> c \<le> 57 then Some (c - 48)
      else if 97 \<le> c \<and> c \<le> 102 then Some (c - 87)
      else if 65 \<le> c \<and> c \<le> 70 then Some (c - 55)
      else None)"

text \<open>Four hexadecimal digits at the head of a text.\<close>

definition hex4 :: "ustring \<Rightarrow> nat option" where
  "hex4 s =
     (case s of
        a # b # c # d # _ \<Rightarrow>
          (case (hexval a, hexval b, hexval c, hexval d) of
             (Some x, Some y, Some z, Some w) \<Rightarrow> Some (((x * 16 + y) * 16 + z) * 16 + w)
           | _ \<Rightarrow> None)
      | _ \<Rightarrow> None)"

definition simple_escape :: "nat \<Rightarrow> nat option" where
  "simple_escape e =
     (if e = cp CHR 0x22 \<or> e = cp CHR 0x5C \<or> e = cp CHR ''/'' then Some e
      else if e = cp CHR ''b'' then Some 8
      else if e = cp CHR ''f'' then Some 12
      else if e = cp CHR ''n'' then Some 10
      else if e = cp CHR ''r'' then Some 13
      else if e = cp CHR ''t'' then Some 9
      else None)"

text \<open>The escape that follows a backslash: the code point it denotes and the number of
  characters it takes. A high surrogate followed by the escape of a low surrogate is one
  code point.\<close>

definition read_escape :: "ustring \<Rightarrow> (nat \<times> nat) option" where
  "read_escape s =
     (case s of
        [] \<Rightarrow> None
      | e # r \<Rightarrow>
          if e = cp CHR ''u'' then
            (case hex4 r of
               None \<Rightarrow> None
             | Some u \<Rightarrow>
                 if 0xD800 \<le> u \<and> u \<le> 0xDBFF \<and> take 2 (drop 4 r) = [cp CHR 0x5C, cp CHR ''u''] then
                   (case hex4 (drop 6 r) of
                      None \<Rightarrow> None
                    | Some u2 \<Rightarrow>
                        if 0xDC00 \<le> u2 \<and> u2 \<le> 0xDFFF
                        then Some (0x10000 + (u - 0xD800) * 0x400 + (u2 - 0xDC00), 11)
                        else Some (u, 5))
                 else Some (u, 5))
          else map_option (\<lambda>x. (x, 1)) (simple_escape e))"

text \<open>A string, from the character after its opening quote: its content and the text
  after its closing quote. A control character inside a string is an error.\<close>

function scan_string :: "ustring \<Rightarrow> (ustring \<times> ustring) option" where
  "scan_string [] = None"
| "scan_string (c # cs) =
     (if c = cp CHR 0x22 then Some ([], cs)
      else if c = cp CHR 0x5C then
        (case read_escape cs of
           None \<Rightarrow> None
         | Some (u, n) \<Rightarrow> map_option (apfst ((#) u)) (scan_string (drop n cs)))
      else if c < 32 then None
      else map_option (apfst ((#) c)) (scan_string cs))"
  by pat_completeness auto
termination
  by (relation "measure length") auto

text \<open>A number, as the decoder's pattern
  \<^verbatim>\<open>(-?(?:0|[1-9][0-9]*))(\.[0-9]+)?([eE][-+]?[0-9]+)?\<close> matches it: an \<^verbatim>\<open>int\<close>
  when there is neither fraction nor exponent, a \<^verbatim>\<open>float\<close> otherwise.\<close>

definition scan_exponent :: "ustring \<Rightarrow> (int \<times> ustring) option" where
  "scan_exponent s =
     (case s of
        [] \<Rightarrow> None
      | c # r \<Rightarrow>
          if c = cp CHR ''e'' \<or> c = cp CHR ''E'' then
            (let (neg, ds) =
               (case r of
                  [] \<Rightarrow> (False, [])
                | d # r' \<Rightarrow>
                    if d = cp CHR ''-'' then (True, r')
                    else if d = cp CHR ''+'' then (False, r')
                    else (False, r));
                 n = int (digits_val 0 (takeWhile is_ascii_digit ds))
             in if ds \<noteq> [] \<and> is_ascii_digit (hd ds)
                then Some (if neg then - n else n, dropWhile is_ascii_digit ds)
                else None)
          else None)"

text \<open>The integer part \<^verbatim>\<open>0|[1-9][0-9]*\<close>: its digits and the text after them.\<close>

definition scan_int_part :: "ustring \<Rightarrow> (ustring \<times> ustring) option" where
  "scan_int_part s =
     (case s of
        [] \<Rightarrow> None
      | d # r \<Rightarrow>
          if \<not> is_ascii_digit d then None
          else if d = 48 then Some ([d], r)
          else Some (d # takeWhile is_ascii_digit r, dropWhile is_ascii_digit r))"

text \<open>The fraction \<^verbatim>\<open>(\.[0-9]+)?\<close>: its digits, none when there is no fraction, and
  the text after it.\<close>

definition scan_frac :: "ustring \<Rightarrow> ustring \<times> ustring" where
  "scan_frac s =
     (case s of
        p # q # r \<Rightarrow>
          if p = cp CHR ''.'' \<and> is_ascii_digit q
          then (q # takeWhile is_ascii_digit r, dropWhile is_ascii_digit r)
          else ([], s)
      | _ \<Rightarrow> ([], s))"

definition scan_number :: "ustring \<Rightarrow> (json \<times> ustring) option" where
  "scan_number s =
     (let neg = (s \<noteq> [] \<and> hd s = cp CHR ''-'')
      in case scan_int_part (if neg then tl s else s) of
           None \<Rightarrow> None
         | Some (ip, r1) \<Rightarrow>
             (let (fp, r2) = scan_frac r1;
                  m = int (digits_val 0 (ip @ fp));
                  sm = (if neg then - m else m)
              in case scan_exponent r2 of
                   None \<Rightarrow>
                     if fp = [] then Some (JInt sm, r2)
                     else Some (JFloat (to_float (scale10 sm (- int (length fp)))), r2)
                 | Some (e, r3) \<Rightarrow>
                     Some (JFloat (to_float (scale10 sm (e - int (length fp)))), r3)))"

definition starts_with :: "ustring \<Rightarrow> ustring \<Rightarrow> bool" where
  "starts_with p s \<longleftrightarrow> take (length p) s = p"

definition scan_literal :: "ustring \<Rightarrow> json \<Rightarrow> ustring \<Rightarrow> (json \<times> ustring) option" where
  "scan_literal p v s = (if starts_with p s then Some (v, drop (length p) s) else None)"

text \<open>The first of two attempts that succeeds.\<close>

definition orelse :: "'a option \<Rightarrow> 'a option \<Rightarrow> 'a option" where
  "orelse a b = (case a of None \<Rightarrow> b | Some x \<Rightarrow> Some x)"

text \<open>A value that is neither a string nor a container, in the scanner's order: the
  three literals, a number, then \<^verbatim>\<open>NaN\<close>, \<^verbatim>\<open>Infinity\<close> and
  \<^verbatim>\<open>-Infinity\<close>.\<close>

definition scan_scalar :: "ustring \<Rightarrow> (json \<times> ustring) option" where
  "scan_scalar s =
     orelse (scan_literal (ascii ''null'') JNull s)
    (orelse (scan_literal (ascii ''true'') (JBool True) s)
    (orelse (scan_literal (ascii ''false'') (JBool False) s)
    (orelse (scan_number s)
    (orelse (scan_literal (ascii ''NaN'') (JFloat NaN) s)
    (orelse (scan_literal (ascii ''Infinity'') (JFloat PInf) s)
            (scan_literal (ascii ''-Infinity'') (JFloat NInf) s))))))"

text \<open>The text as tokens; \<open>None\<close> where no token starts.\<close>

function lex :: "ustring \<Rightarrow> token list option" where
  "lex [] = Some []"
| "lex (c # cs) =
     (if json_space c then lex cs
      else if c = cp CHR ''{'' then map_option ((#) TLBrace) (lex cs)
      else if c = cp CHR ''}'' then map_option ((#) TRBrace) (lex cs)
      else if c = cp CHR ''['' then map_option ((#) TLBracket) (lex cs)
      else if c = cp CHR '']'' then map_option ((#) TRBracket) (lex cs)
      else if c = cp CHR '','' then map_option ((#) TComma) (lex cs)
      else if c = cp CHR '':'' then map_option ((#) TColon) (lex cs)
      else if c = cp CHR 0x22 then
        (case scan_string cs of
           None \<Rightarrow> None
         | Some (x, r) \<Rightarrow> map_option ((#) (TString x)) (lex r))
      else
        (case scan_scalar (c # cs) of
           None \<Rightarrow> None
         | Some (v, r) \<Rightarrow> map_option ((#) (TScalar v)) (lex r)))"
  by pat_completeness auto
termination
proof -
  have str: "length r \<le> length s" if "scan_string s = Some (x, r)" for s x r
    using that
  proof (induction s arbitrary: x r rule: scan_string.induct)
    case 1
    then show ?case by simp
  next
    case (2 c cs)
    show ?case
    proof (cases "c = cp CHR 0x22")
      case True
      with 2(3) show ?thesis by simp
    next
      case nq: False
      show ?thesis
      proof (cases "c = cp CHR 0x5C")
        case True
        with nq 2(3) obtain u n y where e: "read_escape cs = Some (u, n)"
          and s: "scan_string (drop n cs) = Some (y, r)"
          by (auto split: option.splits)
        from 2(1)[OF nq True e refl s] show ?thesis by simp
      next
        case False
        with nq 2(3) obtain y where c32: "\<not> c < 32" and s: "scan_string cs = Some (y, r)"
          by (auto split: if_splits)
        from 2(2)[OF nq False c32 s] show ?thesis by simp
      qed
    qed
  qed
  have ex: "length r \<le> length s" if "scan_exponent s = Some (e, r)" for s e r
  proof (cases s)
    case Nil
    with that show ?thesis by (simp add: scan_exponent_def)
  next
    case (Cons c t)
    show ?thesis
    proof (cases t)
      case Nil
      with Cons that show ?thesis by (simp add: scan_exponent_def split: if_splits)
    next
      case (Cons d t')
      have a: "length (dropWhile is_ascii_digit t') \<le> length t'"
        and b: "length (dropWhile is_ascii_digit t) \<le> length t"
        by (rule length_dropWhile_le)+
      from that \<open>s = c # t\<close> Cons a b show ?thesis
        by (auto simp add: scan_exponent_def Let_def split: if_splits)
    qed
  qed
  have ip: "length r < length s" if "scan_int_part s = Some (x, r)" for s x r
  proof (cases s)
    case Nil
    with that show ?thesis by (simp add: scan_int_part_def)
  next
    case (Cons d t)
    have "length (dropWhile is_ascii_digit t) \<le> length t"
      by (rule length_dropWhile_le)
    with that Cons show ?thesis
      by (auto simp add: scan_int_part_def split: if_splits)
  qed
  have fr: "length r \<le> length s" if "scan_frac s = (x, r)" for s x r
  proof (cases s)
    case Nil
    with that show ?thesis by (simp add: scan_frac_def)
  next
    case (Cons p t)
    show ?thesis
    proof (cases t)
      case Nil
      with Cons that show ?thesis by (simp add: scan_frac_def)
    next
      case (Cons q u)
      have "length (dropWhile is_ascii_digit u) \<le> length u"
        by (rule length_dropWhile_le)
      with that \<open>s = p # t\<close> Cons show ?thesis
        by (auto simp add: scan_frac_def split: if_splits)
    qed
  qed
  have num: "length r < length s" if "scan_number s = Some (v, r)" for s v r
  proof -
    define r0 where "r0 = (if s \<noteq> [] \<and> hd s = cp CHR ''-'' then tl s else s)"
    have l0: "length r0 \<le> length s" by (simp add: r0_def)
    from that obtain x r1 where i: "scan_int_part r0 = Some (x, r1)"
      unfolding scan_number_def Let_def r0_def [symmetric]
      by (cases "scan_int_part r0") auto
    obtain fp r2 where f: "scan_frac r1 = (fp, r2)"
      by (cases "scan_frac r1")
    have "r = r2 \<or> (\<exists>e. scan_exponent r2 = Some (e, r))"
      using that i f
      unfolding scan_number_def Let_def r0_def [symmetric]
      by (cases "scan_exponent r2") (auto split: if_splits)
    then have "length r \<le> length r2"
      using ex by auto
    with ip[OF i] fr[OF f] l0 show ?thesis by simp
  qed
  have lit: "length r < length s" if "scan_literal p w s = Some (v, r)" "p \<noteq> []" for p w s v r
  proof -
    from that have t: "take (length p) s = p" and r: "r = drop (length p) s"
      by (auto simp add: scan_literal_def starts_with_def split: if_splits)
    have "length (take (length p) s) = length p"
      using t by simp
    then have "min (length p) (length s) = length p"
      by simp
    with that(2) r show ?thesis by (cases p) auto
  qed
  have ne: "ascii ''null'' \<noteq> []" "ascii ''true'' \<noteq> []" "ascii ''false'' \<noteq> []"
    "ascii ''NaN'' \<noteq> []" "ascii ''Infinity'' \<noteq> []" "ascii ''-Infinity'' \<noteq> []"
    by (simp_all add: ascii_def)
  have sc: "length r < length s" if "scan_scalar s = Some (v, r)" for s v r
    using that lit ne num
    unfolding scan_scalar_def orelse_def
    by (auto split: option.splits)
  show ?thesis
  proof (relation "measure length")
  qed (auto dest: str sc)
qed

text \<open>Reading the tokens. A frame of the stack is an open array with its elements so
  far, an open object with its pairs so far, or an open object whose next key has been
  read. \<open>put\<close> hands a finished value to the container it belongs to.\<close>

datatype frame =
    InArr "json list"
  | InObj dict
  | InKey dict ustring

datatype expect =
    EValue | EValueOrClose | EKeyOrClose | EKey | EColon | ECommaOrClose

datatype pstate =
    Reading expect "frame list"
  | Finished json

text \<open>\<^verbatim>\<open>dict(pairs)\<close>: a key that comes twice keeps its first place and its last
  value.\<close>

definition dict_of_pairs :: "dict \<Rightarrow> dict" where
  "dict_of_pairs ps = fold (\<lambda>(k, v) d. dict_set k v d) ps []"

fun put :: "json \<Rightarrow> frame list \<Rightarrow> pstate option" where
  "put v [] = Some (Finished v)"
| "put v (InArr xs # st) = Some (Reading ECommaOrClose (InArr (xs @ [v]) # st))"
| "put v (InKey d k # st) = Some (Reading ECommaOrClose (InObj (d @ [(k, v)]) # st))"
| "put v (InObj d # st) = None"

fun open_value :: "token \<Rightarrow> frame list \<Rightarrow> pstate option" where
  "open_value (TScalar v) st = put v st"
| "open_value (TString s) st = put (JStr s) st"
| "open_value TLBracket st = Some (Reading EValueOrClose (InArr [] # st))"
| "open_value TLBrace st = Some (Reading EKeyOrClose (InObj [] # st))"
| "open_value t st = None"

fun read_key :: "token \<Rightarrow> frame list \<Rightarrow> pstate option" where
  "read_key (TString k) (InObj d # st) = Some (Reading EColon (InKey d k # st))"
| "read_key t st = None"

fun close :: "token \<Rightarrow> frame list \<Rightarrow> pstate option" where
  "close TRBracket (InArr xs # st) = put (JArr xs) st"
| "close TRBrace (InObj d # st) = put (JObj (dict_of_pairs d)) st"
| "close t st = None"

fun step :: "pstate \<Rightarrow> token \<Rightarrow> pstate option" where
  "step (Finished v) t = None"
| "step (Reading EValue st) t = open_value t st"
| "step (Reading EValueOrClose st) t =
     (if t = TRBracket then close t st else open_value t st)"
| "step (Reading EKeyOrClose st) t =
     (if t = TRBrace then close t st else read_key t st)"
| "step (Reading EKey st) t = read_key t st"
| "step (Reading EColon st) t = (if t = TColon then Some (Reading EValue st) else None)"
| "step (Reading ECommaOrClose st) t =
     (if t = TComma then
        (case st of
           InArr xs # _ \<Rightarrow> Some (Reading EValue st)
         | InObj d # _ \<Rightarrow> Some (Reading EKey st)
         | _ \<Rightarrow> None)
      else close t st)"

fun run :: "pstate \<Rightarrow> token list \<Rightarrow> json option" where
  "run (Finished v) [] = Some v"
| "run (Reading e st) [] = None"
| "run s (t # ts) = (case step s t of None \<Rightarrow> None | Some s' \<Rightarrow> run s' ts)"

text \<open>\<^verbatim>\<open>json.loads(s)\<close>; \<open>None\<close> is the \<^verbatim>\<open>JSONDecodeError\<close>.\<close>

definition json_loads :: "ustring \<Rightarrow> json option" where
  "json_loads s = (case lex s of None \<Rightarrow> None | Some ts \<Rightarrow> run (Reading EValue []) ts)"

section \<open>The tolerant JSON extractor\<close>

text \<open>A character of the text against a lower-case letter of a pattern compiled with
  \<^verbatim>\<open>re.IGNORECASE\<close>. For the letters of \<^verbatim>\<open>json\<close>, \<^verbatim>\<open>null\<close>,
  \<^verbatim>\<open>true\<close> and \<^verbatim>\<open>false\<close> the matching characters are the letter, its capital
  and, for \<^verbatim>\<open>s\<close>, the long s (U+017F).\<close>

definition ci_eq :: "nat \<Rightarrow> nat \<Rightarrow> bool" where
  "ci_eq p c \<longleftrightarrow> c = p \<or> c + 32 = p \<or> (p = cp CHR ''s'' \<and> c = 383)"

definition ci_starts_with :: "ustring \<Rightarrow> ustring \<Rightarrow> bool" where
  "ci_starts_with p s \<longleftrightarrow> length p \<le> length s \<and> list_all2 ci_eq p (take (length p) s)"

definition fence :: ustring where
  "fence = ascii ''```''"

text \<open>\<^verbatim>\<open>re.sub(r'^```(?:json)?\s*', '', text, flags=re.IGNORECASE)\<close>: only a match at
  the start of the text.\<close>

definition sub_open_fence :: "ustring \<Rightarrow> ustring" where
  "sub_open_fence s =
     (if starts_with fence s then
        (let r = drop 3 s;
             r' = (if ci_starts_with (ascii ''json'') r then drop 4 r else r)
         in dropWhile py_isspace r')
      else s)"

text \<open>\<^verbatim>\<open>re.sub(r'\s*```$', '', text)\<close>: the leftmost position from which blanks, the
  fence and the end of the text follow; \<^verbatim>\<open>$\<close> is also the place before a last line
  feed, which then stays.\<close>

fun sub_close_fence :: "ustring \<Rightarrow> ustring" where
  "sub_close_fence [] = []"
| "sub_close_fence (c # cs) =
     (let r = dropWhile py_isspace (c # cs)
      in if r = fence then []
         else if r = fence @ [10] then [10]
         else c # sub_close_fence cs)"

text \<open>
  \<^verbatim>\<open>
  def clean_markdown_json(text: str) -> str:
      text = re.sub(r'^```(?:json)?\s*', '', text.strip(), flags=re.IGNORECASE)
      text = re.sub(r'\s*```$', '', text.strip())
      return text.strip()
  \<close>
\<close>

definition clean_markdown_json :: "ustring \<Rightarrow> ustring" where
  "clean_markdown_json text = strip (sub_close_fence (strip (sub_open_fence (strip text))))"

text \<open>The text up to the last occurrence of a character, which the greedy \<^verbatim>\<open>.*\<close>
  of the pattern reaches.\<close>

definition up_to_last :: "nat \<Rightarrow> ustring \<Rightarrow> ustring" where
  "up_to_last x s = rev (dropWhile (\<lambda>c. c \<noteq> x) (rev s))"

text \<open>\<^verbatim>\<open>re.compile(r'(\{.*\}|\[.*\])', re.DOTALL).search(text)\<close>: the leftmost opening
  brace with a closing brace after it, or opening bracket with a closing bracket after
  it, up to the last such closing character.\<close>

fun search_candidate :: "ustring \<Rightarrow> ustring option" where
  "search_candidate [] = None"
| "search_candidate (c # cs) =
     (if c = cp CHR ''{'' \<and> cp CHR ''}'' \<in> set cs then Some (c # up_to_last (cp CHR ''}'') cs)
      else if c = cp CHR ''['' \<and> cp CHR '']'' \<in> set cs then Some (c # up_to_last (cp CHR '']'') cs)
      else search_candidate cs)"

definition msg_no_block :: ustring where
  "msg_no_block = ascii ''No JSON-like block found in text.''"

text \<open>
  \<^verbatim>\<open>
  def extract_first_json_candidate(text: str) -> str:
      text = clean_markdown_json(text)
      pattern = re.compile(r'(\{.*\}|\[.*\])', re.DOTALL)
      m = pattern.search(text)
      if not m:
          raise ValueError("No JSON-like block found in text.")
      return m.group(1).strip()
  \<close>
\<close>

definition extract_first_json_candidate :: "ustring \<Rightarrow> pyerror + ustring" where
  "extract_first_json_candidate text =
     (case search_candidate (clean_markdown_json text) of
        None \<Rightarrow> Inl (ValueError msg_no_block)
      | Some m \<Rightarrow> Inr (strip m))"

text \<open>
  \<^verbatim>\<open>
  def remove_trailing_commas(s: str) -> str:
      return re.sub(r',\s*(\}|])', r'\1', s)
  \<close>
  Every comma that is followed by blanks and a closing brace or bracket goes, with the
  blanks; the scan resumes after the closing character.
\<close>

function remove_trailing_commas :: "ustring \<Rightarrow> ustring" where
  "remove_trailing_commas [] = []"
| "remove_trailing_commas (c # cs) =
     (if c = cp CHR '','' then
        (case dropWhile py_isspace cs of
           [] \<Rightarrow> c # remove_trailing_commas cs
         | d # r \<Rightarrow>
             if d = cp CHR ''}'' \<or> d = cp CHR '']'' then d # remove_trailing_commas r
             else c # remove_trailing_commas cs)
      else c # remove_trailing_commas cs)"
  by pat_completeness auto
termination
proof (relation "measure length")
  fix c :: nat and cs :: ustring and d r
  assume "dropWhile py_isspace cs = d # r"
  then have "length (d # r) \<le> length cs"
    by (metis length_dropWhile_le)
  then show "(r, c # cs) \<in> measure length"
    by simp
qed auto

text \<open>\<^verbatim>\<open>re.sub(r"(?<!\\)\'", '"', s)\<close>: every single quote that does not follow a
  backslash becomes a double quote. \<open>prev\<close> is the character before, 0 at the start.\<close>

fun requote :: "nat \<Rightarrow> ustring \<Rightarrow> ustring" where
  "requote prev [] = []"
| "requote prev (c # cs) =
     (if c = cp CHR 0x27 \<and> prev \<noteq> cp CHR 0x5C then cp CHR 0x22 else c) # requote c cs"

text \<open>A word character of \<^verbatim>\<open>\b\<close>.\<close>

definition re_word :: "pylib \<Rightarrow> nat \<Rightarrow> bool" where
  "re_word L c \<longleftrightarrow>
     (if c < 128
      then is_ascii_digit c \<or> (65 \<le> c \<and> c \<le> 90) \<or> (97 \<le> c \<and> c \<le> 122) \<or> c = cp CHR ''_''
      else unicode_word L c)"

text \<open>\<^verbatim>\<open>re.sub(r'\bw\b', rep, s, flags=re.IGNORECASE)\<close> for a word \<open>w\<close> of letters:
  \<open>w\<close> matches where no word character stands before it and none after it.
  \<open>prev\<close> is the character before, if any.\<close>

function sub_word :: "pylib \<Rightarrow> ustring \<Rightarrow> ustring \<Rightarrow> nat option \<Rightarrow> ustring \<Rightarrow> ustring" where
  "sub_word L w rep prev [] = []"
| "sub_word L w rep prev (c # cs) =
     (let after = drop (length w) (c # cs)
      in if w \<noteq> [] \<and> (case prev of None \<Rightarrow> True | Some p \<Rightarrow> \<not> re_word L p) \<and>
            ci_starts_with w (c # cs) \<and> (after = [] \<or> \<not> re_word L (hd after))
         then rep @ sub_word L w rep (Some (last (take (length w) (c # cs)))) after
         else c # sub_word L w rep (Some c) cs)"
  by pat_completeness auto
termination
  by (relation "measure (\<lambda>(L, w, rep, prev, s). length s)") auto

text \<open>
  \<^verbatim>\<open>
  def try_ast_literal_eval(s: str):
      s2 = re.sub(r'\bnull\b', 'None', s, flags=re.IGNORECASE)
      s2 = re.sub(r'\btrue\b', 'True', s2, flags=re.IGNORECASE)
      s2 = re.sub(r'\bfalse\b', 'False', s2, flags=re.IGNORECASE)
      return ast.literal_eval(s2)
  \<close>
\<close>

definition try_ast_literal_eval :: "pylib \<Rightarrow> ustring \<Rightarrow> json option" where
  "try_ast_literal_eval L s =
     (let s2 = sub_word L (ascii ''null'') (ascii ''None'') None s;
          s3 = sub_word L (ascii ''true'') (ascii ''True'') None s2;
          s4 = sub_word L (ascii ''false'') (ascii ''False'') None s3
      in ast_literal_eval L s4)"

definition msg_no_json :: ustring where
  "msg_no_json = ascii ''No JSON block found: ''"

definition msg_failed :: ustring where
  "msg_failed = ascii ''Failed to parse JSON. Snippet: ''"

text \<open>The four strategies tried on the candidate, in order; an exception of one leads
  to the next.\<close>

definition parse_candidate :: "pylib \<Rightarrow> ustring \<Rightarrow> json option" where
  "parse_candidate L candidate =
     orelse (json_loads candidate)
    (orelse (json_loads (remove_trailing_commas candidate))
    (orelse (try_ast_literal_eval L candidate)
            (json_loads (remove_trailing_commas (requote 0 candidate)))))"

text \<open>
  \<^verbatim>\<open>
  def tolerant_parse_json_from_text(raw_text: str):
      cleaned_text = clean_markdown_json(raw_text)
      try:
          return try_json_loads(cleaned_text)
      except:
          pass
      try:
          return try_json_loads(raw_text)
      except:
          pass
      try:
          candidate = extract_first_json_candidate(raw_text)
      except ValueError as e:
          raise ValueError(f"No JSON block found: {str(e)}")
      for strategy in [ ... ]:
          try:
              return strategy()
          except:
              continue
      raise ValueError(f"Failed to parse JSON. Snippet: {candidate[:500]}")
  \<close>
\<close>

definition tolerant_parse_json_from_text :: "pylib \<Rightarrow> ustring \<Rightarrow> pyerror + json" where
  "tolerant_parse_json_from_text L raw_text =
     (case json_loads (clean_markdown_json raw_text) of
        Some v \<Rightarrow> Inr v
      | None \<Rightarrow>
          (case json_loads raw_text of
             Some v \<Rightarrow> Inr v
           | None \<Rightarrow>
               (case extract_first_json_candidate raw_text of
                  Inl (ValueError m) \<Rightarrow> Inl (ValueError (msg_no_json @ m))
                | Inl e \<Rightarrow> Inl e
                | Inr candidate \<Rightarrow>
                    (case parse_candidate L candidate of
                       Some v \<Rightarrow> Inr v
                     | None \<Rightarrow> Inl (ValueError (msg_failed @ take 500 candidate))))))"

section \<open>From the model's response to the order\<close>

definition msg_no_choices :: ustring where
  "msg_no_choices = ascii ''No choices returned by LLM''"

text \<open>\<^verbatim>\<open>choices[0]\<close>: the first element of a list, the first character of a string, a
  \<^verbatim>\<open>KeyError\<close> on a \<^verbatim>\<open>dict\<close> (its keys are strings), a \<^verbatim>\<open>TypeError\<close> on
  anything else. The value is not empty here.\<close>

fun first_item :: "json \<Rightarrow> pyerror + json" where
  "first_item (JArr (x # xs)) = Inr x"
| "first_item (JStr (c # cs)) = Inr (JStr [c])"
| "first_item (JObj kvs) = Inl KeyError"
| "first_item v = Inl TypeError"

text \<open>\<^verbatim>\<open>x.get(k)\<close>: only a \<^verbatim>\<open>dict\<close> has it; a missing key gives \<^verbatim>\<open>None\<close>.\<close>

fun py_get :: "json \<Rightarrow> ustring \<Rightarrow> pyerror + json" where
  "py_get (JObj d) k = Inr (case dict_get d k of None \<Rightarrow> JNull | Some v \<Rightarrow> v)"
| "py_get v k = Inl AttributeError"

text \<open>
  \<^verbatim>\<open>
  def parse_llm_response(resp_json: dict):
      choices = resp_json.get("choices", [])
      if not choices:
          raise ValueError("No choices returned by LLM")
      message = choices[0].get("message") or choices[0].get("delta") or {}
      content = message.get("content")
      if isinstance(content, dict):
          raw = json.dumps(content)
      elif isinstance(content, str):
          raw = content
      else:
          raw = json.dumps(choices[0])
      return tolerant_parse_json_from_text(raw)
  \<close>
\<close>

definition parse_llm_response :: "pylib \<Rightarrow> dict \<Rightarrow> pyerror + json" where
  "parse_llm_response L resp_json =
     (let choices = (case dict_get resp_json (ascii ''choices'') of None \<Rightarrow> JArr [] | Some v \<Rightarrow> v)
      in if \<not> truthy choices then Inl (ValueError msg_no_choices)
         else
           (case first_item choices of
              Inl e \<Rightarrow> Inl e
            | Inr c0 \<Rightarrow>
                (case py_get c0 (ascii ''message'') of
                   Inl e \<Rightarrow> Inl e
                 | Inr m1 \<Rightarrow>
                     (case (if truthy m1 then Inr m1
                            else (case py_get c0 (ascii ''delta'') of
                                    Inl e \<Rightarrow> Inl e
                                  | Inr m2 \<Rightarrow> Inr (if truthy m2 then m2 else JObj []))) of
                        Inl e \<Rightarrow> Inl e
                      | Inr message \<Rightarrow>
                          (case py_get message (ascii ''content'') of
                             Inl e \<Rightarrow> Inl e
                           | Inr content \<Rightarrow>
                               tolerant_parse_json_from_text L
                                 (case content of
                                    JObj d \<Rightarrow> json_dumps L content
                                  | JStr s \<Rightarrow> s
                                  | _ \<Rightarrow> json_dumps L c0))))))"

text \<open>
  \<^verbatim>\<open>extract_order_data\<close>, from the response of the model on: reading the file and the
  HTTP request that produce \<^verbatim>\<open>resp_json\<close> are the environment's.
  \<^verbatim>\<open>
  def extract_order_data(file_path: str):
      dataurl = encode_file_to_dataurl(file_path)
      resp_json = call_llm_extraction(dataurl)
      extracted = parse_llm_response(resp_json)
      ...
  \<close>
\<close>

definition extract_order_data :: "pylib \<Rightarrow> dict \<Rightarrow> pyerror + json" where
  "extract_order_data L resp_json =
     (case parse_llm_response L resp_json of
        Inl e \<Rightarrow> Inl e
      | Inr extracted \<Rightarrow> normalize_extracted L extracted)"

text \<open>
  The kind of an error, as its only caller sees it: the name of the exception's class.
  \<^verbatim>\<open>
  except Exception as e:
      return jsonify({
          'error': str(e),
          'type': type(e).__name__
      }), 500
  \<close>
\<close>

fun exception_class :: "pyerror \<Rightarrow> string" where
  "exception_class (ValueError m) = ''ValueError''"
| "exception_class OverflowError = ''OverflowError''"
| "exception_class AttributeError = ''AttributeError''"
| "exception_class TypeError = ''TypeError''"
| "exception_class KeyError = ''KeyError''"

section \<open>Notions of the specification\<close>

text \<open>A library instance for the examples: it knows no digit and no word character
  above ASCII, and the examples never reach its three functions.\<close>

definition ascii_lib :: pylib where
  "ascii_lib =
     \<lparr>unicode_decimal = (\<lambda>c. None), unicode_word = (\<lambda>c. False),
      json_dumps = (\<lambda>v. []), py_str = (\<lambda>v. []), ast_literal_eval = (\<lambda>s. None)\<rparr>"

text \<open>The response envelope of the model with one choice whose message has the text
  \<open>content\<close>.\<close>

definition response_with_content :: "ustring \<Rightarrow> dict" where
  "response_with_content content =
     [(ascii ''choices'',
       JArr [JObj [(ascii ''message'', JObj [(ascii ''content'', JStr content)])]])]"

text \<open>A text wrapped in a \<^verbatim>\<open>```json\<close> fenced block, each fence on a line of its own.\<close>

definition json_fenced :: "ustring \<Rightarrow> ustring" where
  "json_fenced t = ascii ''```json'' @ [10] @ t @ [10] @ fence"

text \<open>A text has a substring that starts with the character \<open>a\<close> and ends with a
  later character \<open>b\<close>.\<close>

fun delimited :: "nat \<Rightarrow> nat \<Rightarrow> ustring \<Rightarrow> bool" where
  "delimited a b [] \<longleftrightarrow> False"
| "delimited a b (c # cs) \<longleftrightarrow> (c = a \<and> b \<in> set cs) \<or> delimited a b cs"

text \<open>Somewhere in a text a comma is followed by blanks, if any, and a closing brace or
  bracket.\<close>

fun comma_closer :: "ustring \<Rightarrow> bool" where
  "comma_closer [] \<longleftrightarrow> False"
| "comma_closer (c # cs) \<longleftrightarrow>
     (c = cp CHR '','' \<and>
      (case dropWhile py_isspace cs of
         [] \<Rightarrow> False
       | d # r \<Rightarrow> d = cp CHR ''}'' \<or> d = cp CHR '']''))
     \<or> comma_closer cs"


text \<open>A text that opens with a brace and ends with a brace, or opens with a bracket and
  ends with a bracket, is its own cleanup and its own candidate.\<close>

definition enclosed :: "ustring \<Rightarrow> bool" where
  "enclosed s \<longleftrightarrow>
     2 \<le> length s \<and>
     (hd s = cp CHR ''{'' \<and> last s = cp CHR ''}'' \<or> hd s = cp CHR ''['' \<and> last s = cp CHR '']'')"

section \<open>Evaluation\<close>

lemmas str_defs = ascii_def strip_def lstrip_def rstrip_def py_isspace_def replace_char_def
  is_ascii_digit_def lower_ascii_def starts_with_def

lemmas float_defs = float_of_str_def c_isspace_def parse_signed_def parse_unsigned_def
  parse_decimal_def parse_exponent_def scale10_def to_float_def float_overflow_def
  float_underflow_def keep_number_chars_def re_digit_def to_decimal_def normalize_text_def

lemmas json_defs = json_space_def scan_scalar_def scan_literal_def orelse_def scan_number_def
  scan_int_part_def scan_frac_def scan_exponent_def json_loads_def dict_of_pairs_def
  read_escape_def hex4_def hexval_def simple_escape_def

lemmas item_defs = normalize_item_def normalize_quantity_def normalize_field_def
  normalize_vat_def vat_of_text_def dict_get_def key_qte_def key_pu_def key_total_def
  key_tva_def key_items_def json_of_float_def trunc_def normalize_extracted_def

lemmas parse_defs = clean_markdown_json_def sub_open_fence_def fence_def ci_starts_with_def
  ci_eq_def extract_first_json_candidate_def up_to_last_def parse_candidate_def
  tolerant_parse_json_from_text_def parse_llm_response_def extract_order_data_def
  msg_no_choices_def response_with_content_def

section \<open>Basic facts\<close>

lemma dict_get_set: "dict_get (dict_set k v d) k' = (if k' = k then Some v else dict_get d k')"
  by (induction d) (auto simp: dict_get_def)


text \<open>The envelope with one choice hands its content to the tolerant parser.\<close>

lemma parse_response_with_content:
  "parse_llm_response L (response_with_content raw) = tolerant_parse_json_from_text L raw"
  by (simp add: parse_llm_response_def response_with_content_def dict_get_def ascii_def)

section \<open>The number normalizer: C3\<close>

text \<open>The vectors of the specification hold.\<close>

lemma normalize_number_vectors:
  "normalize_number L (JStr (ascii ''5 000,0'')) = Inr (Some (Fin 5000))"
  "normalize_number L (JStr (ascii ''1.234,56'')) = Inr (Some (Fin 1234.56))"
  "normalize_number L (JStr (ascii ''20.5'')) = Inr (Some (Fin 20.5))"
  "normalize_number L (JStr []) = Inr None"
  "normalize_number L JNull = Inr None"
  by (simp_all add: str_defs float_defs Let_def)

text \<open>Every argument that is not an integer beyond the range of a float gives a float or
  the absent value.\<close>

lemma normalize_number_returns:
  "(\<forall>n. v = JInt n \<longrightarrow> \<bar>rat_of_int n\<bar> < float_overflow) \<Longrightarrow> \<exists>r. normalize_number L v = Inr r"
  by (cases v) (auto simp: float_of_int_def)

text \<open>
  C3: \<^verbatim>\<open>normalize_number\<close> satisfies the vectors of the specification and, for every
  input, returns a float or the absent value and never raises. The vectors hold
  (\<open>normalize_number_vectors\<close>), and so does the second part on every input but one kind
  (\<open>normalize_number_returns\<close>): the numeric branch calls \<^verbatim>\<open>float(s)\<close> outside the
  \<^verbatim>\<open>try\<close>, so the integer \<open>2\<^sup>1\<^sup>0\<^sup>2\<^sup>4\<close>, which \<^verbatim>\<open>json.loads\<close> reads from its
  309 digits, raises an \<^verbatim>\<open>OverflowError\<close>.
\<close>

theorem normalize_number_overflow:
  "normalize_number L (JInt (2 ^ 1024)) = Inl OverflowError"
  by (simp add: float_of_int_def float_overflow_def)

text \<open>The integer reaches the normalizer from a response of the model: a unit price
  written with the 309 digits of \<open>2\<^sup>1\<^sup>0\<^sup>2\<^sup>4\<close> makes the whole extraction raise.\<close>

lemma overflow_in_pipeline:
  \<open>extract_order_data L (response_with_content (ascii
     ''{"items":[{"P.U. H.T.":179769313486231590772930519078902473361797697894230657273430081157732675805500963132708477322407536021120113879871393357658789768814416622492847430639474124377767893424865485276302219601246094119453082952085005768838150682342462881473913110540827237163350510684586298239947245938479716304835356329624224137216}]}''))
   = Inl OverflowError\<close>
  unfolding extract_order_data_def parse_response_with_content
  by (simp add: str_defs json_defs float_defs parse_defs item_defs float_of_int_def Let_def)

section \<open>The quantity of an item: C1\<close>






text \<open>The quantity stays absent only when the field is missing or null: then the item
  is left as it is, and a quantity that is present and not null always becomes an
  integer.\<close>

lemma quantity_absent_stays:
  "dict_get itm key_qte = None \<or> dict_get itm key_qte = Some JNull \<Longrightarrow>
   normalize_quantity L itm = Inr itm"
  by (auto simp: normalize_quantity_def)

lemma quantity_present_is_integer:
  assumes "dict_get itm key_qte = Some q" and "q \<noteq> JNull"
    and "normalize_quantity L itm = Inr itm'"
  shows "\<exists>n. dict_get itm' key_qte = Some (JInt n)"
proof -
  from assms obtain x n where "normalize_number L q = Inr x" and "int_or_zero x = Inr n"
    and "itm' = dict_set key_qte (JInt n) itm"
    by (cases q) (auto simp: normalize_quantity_def split: sum.splits)
  then show ?thesis by (simp add: dict_get_set)
qed

section \<open>The response envelope: C7\<close>

text \<open>
  C7, as stated: for every response envelope whose choices are empty, the mapper fails
  with a dedicated empty-response error, a distinguished error kind and not a generic
  exception. It fails on the envelope whose choices are the empty list: the exception
  raised is the built-in \<^verbatim>\<open>ValueError\<close>, and its kind is the kind of the error that
  a content without JSON raises.
\<close>

theorem empty_choices_counterexample:
  "extract_order_data ascii_lib [(ascii ''choices'', JArr [])]
     = Inl (ValueError msg_no_choices) \<and>
   extract_order_data ascii_lib (response_with_content (ascii ''hello''))
     = Inl (ValueError (msg_no_json @ msg_no_block)) \<and>
   exception_class (ValueError msg_no_choices) = ''ValueError'' \<and>
   exception_class (ValueError (msg_no_json @ msg_no_block)) = ''ValueError''"
proof -
  have "extract_order_data ascii_lib [(ascii ''choices'', JArr [])]
     = Inl (ValueError msg_no_choices)"
    by (simp add: extract_order_data_def parse_llm_response_def dict_get_def)
  moreover have "extract_order_data ascii_lib (response_with_content (ascii ''hello''))
     = Inl (ValueError (msg_no_json @ msg_no_block))"
    unfolding extract_order_data_def parse_response_with_content
    by (simp add: str_defs json_defs parse_defs Let_def)
  ultimately show ?thesis by simp
qed

text \<open>
  C7, amended: for every response envelope whose choices are missing or an empty
  sequence, the mapper fails with the \<^verbatim>\<open>ValueError\<close> that the explicit test on
  \<^verbatim>\<open>choices\<close> raises. Its class is the built-in \<^verbatim>\<open>ValueError\<close>, which the code
  raises for its other failures too; the error is told apart by its message alone,
  which differs from the messages of the two errors of the tolerant parser.
\<close>

theorem empty_choices_error:
  assumes "dict_get resp (ascii ''choices'') = None \<or> dict_get resp (ascii ''choices'') = Some (JArr [])"
  shows "parse_llm_response L resp = Inl (ValueError msg_no_choices) \<and>
         extract_order_data L resp = Inl (ValueError msg_no_choices) \<and>
         exception_class (ValueError msg_no_choices) = ''ValueError'' \<and>
         (\<forall>m. msg_no_choices \<noteq> msg_no_json @ m) \<and> (\<forall>m. msg_no_choices \<noteq> msg_failed @ m)"
proof -
  have p: "parse_llm_response L resp = Inl (ValueError msg_no_choices)"
    using assms by (auto simp: parse_llm_response_def)
  then have "extract_order_data L resp = Inl (ValueError msg_no_choices)"
    by (simp add: extract_order_data_def)
  moreover have "msg_no_choices \<noteq> msg_no_json @ m" "msg_no_choices \<noteq> msg_failed @ m" for m
    by (simp_all add: msg_no_choices_def msg_no_json_def msg_failed_def ascii_def)
  ultimately show ?thesis using p by simp
qed

theorem empty_choices_error_witness:
  "dict_get [(ascii ''choices'', JArr [])] (ascii ''choices'') = Some (JArr []) \<and>
   extract_order_data ascii_lib [(ascii ''choices'', JArr [])] = Inl (ValueError msg_no_choices) \<and>
   exception_class (ValueError msg_no_choices) = ''ValueError''"
proof -
  have h: "dict_get [(ascii ''choices'', JArr [])] (ascii ''choices'') = Some (JArr [])"
    by (simp add: dict_get_def)
  from empty_choices_error[OF disjI2, OF h, of ascii_lib] h show ?thesis
    by simp
qed

section \<open>Items absent or empty: C9\<close>

text \<open>
  C9: for every parsed JSON object whose \<^verbatim>\<open>items\<close> field is absent or an empty array,
  the mapper succeeds and the items of its result are the empty sequence; so does the
  whole extraction on a response parsed to such an object.
\<close>

theorem empty_items_ok:
  assumes "dict_get d key_items = None \<or> dict_get d key_items = Some (JArr [])"
  shows "normalize_extracted L (JObj d) = Inr (JObj (dict_set key_items (JArr []) d)) \<and>
         dict_get (dict_set key_items (JArr []) d) key_items = Some (JArr []) \<and>
         (\<forall>resp. parse_llm_response L resp = Inr (JObj d) \<longrightarrow>
            extract_order_data L resp = Inr (JObj (dict_set key_items (JArr []) d)))"
proof -
  have n: "normalize_extracted L (JObj d) = Inr (JObj (dict_set key_items (JArr []) d))"
    using assms by (auto simp: normalize_extracted_def)
  then show ?thesis
    by (simp add: extract_order_data_def dict_get_set)
qed

theorem empty_items_ok_witness:
  \<open>dict_get [(ascii ''document_type'', JStr (ascii ''unknown'')), (key_items, JArr [])] key_items = Some (JArr []) \<and>
   parse_llm_response ascii_lib (response_with_content (ascii ''{"document_type":"unknown","items":[]}''))
     = Inr (JObj [(ascii ''document_type'', JStr (ascii ''unknown'')), (key_items, JArr [])]) \<and>
   extract_order_data ascii_lib (response_with_content (ascii ''{"document_type":"unknown","items":[]}''))
     = Inr (JObj [(ascii ''document_type'', JStr (ascii ''unknown'')), (key_items, JArr [])])\<close>
proof -
  have h: "dict_get [(ascii ''document_type'', JStr (ascii ''unknown'')), (key_items, JArr [])] key_items = Some (JArr [])"
    by (simp add: dict_get_def key_items_def ascii_def)
  have p: \<open>parse_llm_response ascii_lib (response_with_content (ascii ''{"document_type":"unknown","items":[]}''))
     = Inr (JObj [(ascii ''document_type'', JStr (ascii ''unknown'')), (key_items, JArr [])])\<close>
    unfolding parse_response_with_content
    by (simp add: str_defs json_defs parse_defs key_items_def Let_def)
  from empty_items_ok[OF disjI2, OF h, of ascii_lib] h p show ?thesis
    by (simp add: key_items_def ascii_def)
qed

section \<open>A parsed value that is an array: C10\<close>

text \<open>
  C10: for every model content that the tolerant parser reads as a top-level JSON array,
  the extraction fails at \<^verbatim>\<open>extracted.get("items", [])\<close> with an
  \<^verbatim>\<open>AttributeError\<close>, which is none of the \<^verbatim>\<open>ValueError\<close>s the pipeline raises on
  purpose: the mapper requires an object.
\<close>

theorem top_level_array_fails:
  assumes "tolerant_parse_json_from_text L raw = Inr (JArr xs)"
  shows "extract_order_data L (response_with_content raw) = Inl AttributeError \<and>
         (\<forall>m. AttributeError \<noteq> ValueError m)"
  using assms by (simp add: extract_order_data_def parse_response_with_content normalize_extracted_def)

theorem top_level_array_fails_witness:
  "tolerant_parse_json_from_text ascii_lib (ascii ''[1, 2]'') = Inr (JArr [JInt 1, JInt 2]) \<and>
   extract_order_data ascii_lib (response_with_content (ascii ''[1, 2]'')) = Inl AttributeError"
proof -
  have h: "tolerant_parse_json_from_text ascii_lib (ascii ''[1, 2]'') = Inr (JArr [JInt 1, JInt 2])"
    by (simp add: str_defs json_defs parse_defs Let_def)
  from top_level_array_fails[OF h] h show ?thesis
    by simp
qed

section \<open>The end-to-end scenario: C2\<close>

text \<open>
  C2: the model content that is the fenced JSON object with document type
  \<^verbatim>\<open>order\<close>, currency \<^verbatim>\<open>EUR\<close>, confidence 0.9 and the single Savon item is
  parsed and normalized to exactly one item, with product name Savon, quantity 2, unit
  price 5.5, line total 11.0 and VAT rate 20.0.
\<close>

theorem order_example:
  \<open>extract_order_data L (response_with_content (json_fenced (ascii
     ''{"document_type":"order","currency":"EUR","extraction_confidence":0.9,"items":[{"Produit":"Savon","Qt'' @ [233] @ ascii ''":"2","P.U. H.T.":"5,50","Total H.T.":"11,00","Taux TVA":"20,00%"}]}'')))
   = Inr (JObj
       [(ascii ''document_type'', JStr (ascii ''order'')),
        (ascii ''currency'', JStr (ascii ''EUR'')),
        (ascii ''extraction_confidence'', JFloat (Fin 0.9)),
        (ascii ''items'', JArr [JObj
           [(ascii ''Produit'', JStr (ascii ''Savon'')),
            (key_qte, JInt 2),
            (key_pu, JFloat (Fin 5.5)),
            (key_total, JFloat (Fin 11)),
            (key_tva, JFloat (Fin 20))]])])\<close>
  unfolding extract_order_data_def parse_response_with_content
  by (simp add: json_fenced_def str_defs json_defs float_defs parse_defs item_defs Let_def)

section \<open>Blanks around a text\<close>

lemma not_space_percent: "\<not> py_isspace (cp CHR ''%'')"
  by (simp add: py_isspace_def)



lemma lstrip_spaces: "list_all py_isspace a \<Longrightarrow> lstrip (a @ y) = lstrip y"
  by (induction a) (simp_all add: lstrip_def)

lemma rstrip_spaces: "list_all py_isspace b \<Longrightarrow> rstrip (y @ b) = rstrip y"
proof -
  assume "list_all py_isspace b"
  then have "dropWhile py_isspace (rev b @ rev y) = dropWhile py_isspace (rev y)"
    by (intro dropWhile_append2) (simp add: list_all_iff)
  then show ?thesis by (simp add: rstrip_def)
qed

lemma lstrip_all_spaces: "list_all py_isspace y \<Longrightarrow> lstrip y = []"
  by (simp add: lstrip_def list_all_iff)

lemma lstrip_append_nonspace:
  "\<not> list_all py_isspace y \<Longrightarrow> lstrip (y @ b) = lstrip y @ b"
  by (auto simp: lstrip_def list_all_iff dropWhile_append1)

lemma strip_pad:
  assumes "list_all py_isspace a" and "list_all py_isspace b"
  shows "strip (a @ y @ b) = strip y"
proof (cases "list_all py_isspace y")
  case True
  with assms have "list_all py_isspace (y @ b)" by simp
  then show ?thesis
    using assms True by (simp add: strip_def lstrip_spaces lstrip_all_spaces rstrip_def)
next
  case False
  then show ?thesis
    using assms by (simp add: strip_def lstrip_spaces lstrip_append_nonspace rstrip_spaces)
qed

lemma strip_decompose:
  "\<exists>a b. s = a @ strip s @ b \<and> list_all py_isspace a \<and> list_all py_isspace b"
proof -
  have l: "s = takeWhile py_isspace s @ lstrip s"
    by (simp add: lstrip_def)
  have "rev (lstrip s) = takeWhile py_isspace (rev (lstrip s)) @ dropWhile py_isspace (rev (lstrip s))"
    by simp
  then have "lstrip s = rev (dropWhile py_isspace (rev (lstrip s))) @ rev (takeWhile py_isspace (rev (lstrip s)))"
    by (metis rev_append rev_rev_ident)
  then have r: "lstrip s = strip s @ rev (takeWhile py_isspace (rev (lstrip s)))"
    by (simp add: strip_def rstrip_def)
  have "list_all py_isspace (takeWhile py_isspace s)"
    and "list_all py_isspace (rev (takeWhile py_isspace (rev (lstrip s))))"
    by (auto simp: list_all_iff dest: set_takeWhileD)
  with l r show ?thesis by metis
qed


lemma set_strip: "set (strip s) \<subseteq> set s"
  unfolding strip_def rstrip_def lstrip_def
  by (metis (no_types, lifting) set_dropWhileD set_rev subsetI)



section \<open>The VAT rate of an item: C8\<close>





section \<open>No JSON-shaped candidate: C5\<close>

lemma delimited_iff: "delimited a b s \<longleftrightarrow> (\<exists>u v w. s = u @ a # v @ b # w)"
proof (induction s)
  case Nil
  then show ?case by simp
next
  case (Cons c cs)
  show ?case
  proof
    assume "delimited a b (c # cs)"
    then consider "c = a" "b \<in> set cs" | "delimited a b cs" by auto
    then show "\<exists>u v w. c # cs = u @ a # v @ b # w"
    proof cases
      case 1
      then obtain v w where "cs = v @ b # w" by (meson split_list)
      with 1 have "c # cs = [] @ a # v @ b # w" by simp
      then show ?thesis by blast
    next
      case 2
      with Cons obtain u v w where "cs = u @ a # v @ b # w" by blast
      then have "c # cs = (c # u) @ a # v @ b # w" by simp
      then show ?thesis by blast
    qed
  next
    assume "\<exists>u v w. c # cs = u @ a # v @ b # w"
    then obtain u v w where e: "c # cs = u @ a # v @ b # w" by blast
    show "delimited a b (c # cs)"
    proof (cases u)
      case Nil
      with e show ?thesis by auto
    next
      case (Cons d u')
      with e have "cs = u' @ a # v @ b # w" by simp
      with Cons.IH show ?thesis by auto
    qed
  qed
qed

lemma search_candidate_None:
  "search_candidate s = None \<longleftrightarrow>
     \<not> delimited (cp CHR ''{'') (cp CHR ''}'') s \<and> \<not> delimited (cp CHR ''['') (cp CHR '']'') s"
  by (induction s) auto

lemma not_delimited_without_open: "a \<notin> set s \<Longrightarrow> \<not> delimited a b s"
  by (induction s) auto

text \<open>
  C5, as stated: every text with neither a brace-delimited nor a bracket-delimited
  substring fails with the no-JSON-found error. It fails on the text \<^verbatim>\<open>42\<close>, which
  has no such substring and is returned as the number 42 by the direct parse that comes
  first.
\<close>

theorem no_json_found_counterexample:
  "\<not> delimited (cp CHR ''{'') (cp CHR ''}'') (clean_markdown_json (ascii ''42'')) \<and>
   \<not> delimited (cp CHR ''['') (cp CHR '']'') (clean_markdown_json (ascii ''42'')) \<and>
   tolerant_parse_json_from_text ascii_lib (ascii ''42'') = Inr (JInt 42)"
  by (simp add: str_defs json_defs parse_defs Let_def)

text \<open>
  C5, amended: every text whose cleaned form has neither a brace-delimited nor a
  bracket-delimited substring, and which is not a valid JSON text itself, before or after
  the cleanup, fails with the no-JSON-found error, which is not the parse error.
\<close>

theorem no_json_found:
  assumes "\<not> delimited (cp CHR ''{'') (cp CHR ''}'') (clean_markdown_json raw)"
    and "\<not> delimited (cp CHR ''['') (cp CHR '']'') (clean_markdown_json raw)"
    and "json_loads (clean_markdown_json raw) = None"
    and "json_loads raw = None"
  shows "tolerant_parse_json_from_text L raw = Inl (ValueError (msg_no_json @ msg_no_block)) \<and>
         (\<forall>m. msg_no_json @ msg_no_block \<noteq> msg_failed @ m)"
proof -
  have "search_candidate (clean_markdown_json raw) = None"
    using assms(1,2) by (simp only: search_candidate_None simp_thms)
  then have "extract_first_json_candidate raw = Inl (ValueError msg_no_block)"
    by (simp add: extract_first_json_candidate_def)
  then have "tolerant_parse_json_from_text L raw = Inl (ValueError (msg_no_json @ msg_no_block))"
    using assms(3,4) by (simp add: tolerant_parse_json_from_text_def)
  moreover have "msg_no_json @ msg_no_block \<noteq> msg_failed @ m" for m
    by (simp add: msg_no_json_def msg_failed_def ascii_def)
  ultimately show ?thesis by blast
qed

theorem no_json_found_witness:
  "\<not> delimited (cp CHR ''{'') (cp CHR ''}'') (clean_markdown_json (ascii ''hello'')) \<and>
   \<not> delimited (cp CHR ''['') (cp CHR '']'') (clean_markdown_json (ascii ''hello'')) \<and>
   json_loads (clean_markdown_json (ascii ''hello'')) = None \<and>
   json_loads (ascii ''hello'') = None \<and>
   tolerant_parse_json_from_text ascii_lib (ascii ''hello'') = Inl (ValueError (msg_no_json @ msg_no_block))"
proof -
  have c: "clean_markdown_json (ascii ''hello'') = ascii ''hello''"
    by (simp add: str_defs parse_defs Let_def)
  have h1: "\<not> delimited (cp CHR ''{'') (cp CHR ''}'') (clean_markdown_json (ascii ''hello''))"
    and h2: "\<not> delimited (cp CHR ''['') (cp CHR '']'') (clean_markdown_json (ascii ''hello''))"
    unfolding c by (simp_all add: ascii_def)
  have h3: "json_loads (clean_markdown_json (ascii ''hello'')) = None"
    unfolding c by (simp add: str_defs json_defs Let_def)
  have h4: "json_loads (ascii ''hello'') = None"
    by (simp add: str_defs json_defs Let_def)
  from no_json_found[OF h1 h2 h3 h4, of ascii_lib] h1 h2 h3 h4 show ?thesis
    by simp
qed

text \<open>The cleanup adds no character, so the same holds for a text without any opening
  brace or bracket.\<close>

lemma set_sub_open_fence: "set (sub_open_fence s) \<subseteq> set s"
proof -
  have "set (dropWhile py_isspace (drop n s)) \<subseteq> set s" for n
    by (meson set_dropWhileD set_drop_subset subsetD subsetI)
  then show ?thesis
    unfolding sub_open_fence_def Let_def
    by (simp del: dropWhile_eq_Nil_conv add: drop_drop)
qed

lemma set_sub_close_fence: "set (sub_close_fence s) \<subseteq> set s"
proof (induction s)
  case Nil
  then show ?case by simp
next
  case (Cons c cs)
  have "10 \<in> set (c # cs)" if "dropWhile py_isspace (c # cs) = fence @ [10]"
  proof -
    have "10 \<in> set (dropWhile py_isspace (c # cs))"
      unfolding that by simp
    then show ?thesis by (rule set_dropWhileD)
  qed
  with Cons show ?case
    by (auto simp: Let_def simp del: dropWhile.simps)
qed

lemma set_clean_markdown_json: "set (clean_markdown_json s) \<subseteq> set s"
  unfolding clean_markdown_json_def
  by (meson set_strip set_sub_open_fence set_sub_close_fence subset_trans)

lemma no_json_found_plain:
  assumes "cp CHR ''{'' \<notin> set raw" and "cp CHR ''['' \<notin> set raw"
    and "json_loads (clean_markdown_json raw) = None" and "json_loads raw = None"
  shows "tolerant_parse_json_from_text L raw = Inl (ValueError (msg_no_json @ msg_no_block))"
proof -
  have "cp CHR ''{'' \<notin> set (clean_markdown_json raw)" "cp CHR ''['' \<notin> set (clean_markdown_json raw)"
    using assms(1,2) set_clean_markdown_json by blast+
  then have "search_candidate (clean_markdown_json raw) = None"
    by (simp only: search_candidate_None not_delimited_without_open simp_thms)
  then show ?thesis
    using assms(3,4)
    by (simp add: extract_first_json_candidate_def tolerant_parse_json_from_text_def)
qed

section \<open>A blank after a text, as the scanners see it\<close>

lemma takeWhile_snoc_not: "\<not> P c \<Longrightarrow> takeWhile P (r @ [c]) = takeWhile P r"
  by (induction r) simp_all

lemma dropWhile_snoc_not: "\<not> P c \<Longrightarrow> dropWhile P (r @ [c]) = dropWhile P r @ [c]"
  by (induction r) simp_all

lemma space_not_digit: "py_isspace c \<Longrightarrow> \<not> is_ascii_digit c"
  by (auto simp: py_isspace_def is_ascii_digit_def)

lemma space_not_hex: "py_isspace c \<Longrightarrow> hexval c = None"
  by (auto simp: py_isspace_def hexval_def)

lemma space_not_escape: "py_isspace c \<Longrightarrow> simple_escape c = None \<and> c \<noteq> cp CHR ''u''"
  by (auto simp: py_isspace_def simple_escape_def)

lemma hex4_snoc:
  assumes "py_isspace c"
  shows "hex4 (r @ [c]) = hex4 r"
proof (cases r)
  case Nil
  then show ?thesis by (simp add: hex4_def)
next
  case c1: (Cons y1 r1)
  show ?thesis
  proof (cases r1)
    case Nil
    with c1 show ?thesis by (simp add: hex4_def)
  next
    case c2: (Cons y2 r2)
    show ?thesis
    proof (cases r2)
      case Nil
      with c1 c2 show ?thesis by (simp add: hex4_def)
    next
      case c3: (Cons y3 r3)
      show ?thesis
      proof (cases r3)
        case Nil
        with c1 c2 c3 assms show ?thesis
          by (simp add: hex4_def space_not_hex split: option.splits)
      next
        case (Cons y4 r4)
        with c1 c2 c3 show ?thesis by (simp add: hex4_def)
      qed
    qed
  qed
qed

lemma hex4_length: "hex4 r = Some u \<Longrightarrow> 4 \<le> length r"
  by (auto simp: hex4_def split: list.splits)

lemma take2_snoc:
  assumes "c \<noteq> b"
  shows "take 2 (x @ [c]) = [a, b] \<longleftrightarrow> take 2 x = [a, b]"
proof (cases x)
  case Nil
  then show ?thesis by simp
next
  case (Cons y ys)
  then show ?thesis using assms by (cases ys) auto
qed

lemma read_escape_snoc:
  assumes "py_isspace c"
  shows "read_escape (s @ [c]) = read_escape s"
proof (cases s)
  case Nil
  then show ?thesis
    using space_not_escape[OF assms] by (simp add: read_escape_def)
next
  case (Cons e r)
  show ?thesis
  proof (cases "hex4 r")
    case None
    then show ?thesis
      using Cons by (simp add: read_escape_def hex4_snoc[OF assms])
  next
    case (Some u)
    then have l: "4 \<le> length r" by (rule hex4_length)
    have t2: "take 2 (drop 4 r @ [c]) = [cp CHR 0x5C, cp CHR ''u''] \<longleftrightarrow>
        take 2 (drop 4 r) = [cp CHR 0x5C, cp CHR ''u'']"
      by (rule take2_snoc) (use space_not_escape[OF assms] in simp)
    have d6: "hex4 (drop 6 (r @ [c])) = hex4 (drop 6 r)"
      if "take 2 (drop 4 r) = [cp CHR 0x5C, cp CHR ''u'']"
    proof -
      have "length (take 2 (drop 4 r)) = 2" using that by simp
      then have "6 \<le> length r" by simp
      then show ?thesis by (simp add: hex4_snoc[OF assms])
    qed
    show ?thesis
      using Cons Some l t2 d6
      by (simp add: read_escape_def hex4_snoc[OF assms])
  qed
qed

lemma read_escape_length: "read_escape s = Some (u, n) \<Longrightarrow> n \<le> length s"
proof (cases s)
  case Nil
  then show "read_escape s = Some (u, n) \<Longrightarrow> n \<le> length s" by (simp add: read_escape_def)
next
  case (Cons e r)
  assume a: "read_escape s = Some (u, n)"
  show "n \<le> length s"
  proof (cases "e = cp CHR ''u''")
    case False
    with a Cons show ?thesis by (auto simp: read_escape_def)
  next
    case True
    with a Cons obtain v where h: "hex4 r = Some v"
      by (auto simp: read_escape_def split: option.splits)
    then have l: "4 \<le> length r" by (rule hex4_length)
    show ?thesis
    proof (cases "n = 11")
      case False
      with a Cons True h l show ?thesis
        by (auto simp: read_escape_def split: option.splits if_splits)
    next
      case n11: True
      with a Cons True h obtain w where "hex4 (drop 6 r) = Some w"
        by (auto simp: read_escape_def split: option.splits if_splits)
      then have "4 \<le> length (drop 6 r)" by (rule hex4_length)
      with n11 Cons show ?thesis by simp
    qed
  qed
qed

lemma scan_string_snoc:
  assumes "py_isspace c"
  shows "scan_string (s @ [c]) = map_option (apsnd (\<lambda>r. r @ [c])) (scan_string s)"
proof (induction s rule: scan_string.induct)
  case 1
  have "c \<noteq> cp CHR 0x22" "c \<noteq> cp CHR 0x5C"
    using assms by (auto simp: py_isspace_def)
  then show ?case by simp
next
  case (2 d ds)
  show ?case
  proof (cases "d = cp CHR 0x22")
    case True
    then show ?thesis by simp
  next
    case nq: False
    show ?thesis
    proof (cases "d = cp CHR 0x5C")
      case True
      show ?thesis
      proof (cases "read_escape ds")
        case None
        with nq True show ?thesis by (simp add: read_escape_snoc[OF assms])
      next
        case (Some a)
        obtain u n where a: "a = (u, n)" by (cases a)
        with Some have n: "n \<le> length ds" using read_escape_length by blast
        from 2(1)[OF nq True Some[unfolded a] refl] nq True Some a n show ?thesis
          by (simp add: read_escape_snoc[OF assms] option.map_comp comp_def apfst_def apsnd_def map_prod_def split_beta)
      qed
    next
      case False
      with nq 2(2) show ?thesis
        by (simp add: option.map_comp comp_def apfst_def apsnd_def map_prod_def split_beta)
    qed
  qed
qed

lemma scan_int_part_snoc:
  assumes "py_isspace c"
  shows "scan_int_part (s @ [c]) = map_option (apsnd (\<lambda>r. r @ [c])) (scan_int_part s)"
proof (cases s)
  case Nil
  then show ?thesis
    using space_not_digit[OF assms] by (simp add: scan_int_part_def)
next
  case (Cons d r)
  then show ?thesis
    using space_not_digit[OF assms]
    by (simp add: scan_int_part_def takeWhile_snoc_not dropWhile_snoc_not)
qed

lemma scan_frac_snoc:
  assumes "py_isspace c"
  shows "scan_frac (s @ [c]) = apsnd (\<lambda>r. r @ [c]) (scan_frac s)"
proof (cases s)
  case Nil
  then show ?thesis by (simp add: scan_frac_def)
next
  case c1: (Cons p t)
  show ?thesis
  proof (cases t)
    case Nil
    with c1 show ?thesis
      using space_not_digit[OF assms] by (simp add: scan_frac_def)
  next
    case (Cons q r)
    with c1 show ?thesis
      using space_not_digit[OF assms]
      by (simp add: scan_frac_def takeWhile_snoc_not dropWhile_snoc_not)
  qed
qed

lemma scan_exponent_snoc:
  assumes "py_isspace c"
  shows "scan_exponent (s @ [c]) = map_option (apsnd (\<lambda>r. r @ [c])) (scan_exponent s)"
proof -
  have nd: "\<not> is_ascii_digit c" by (rule space_not_digit[OF assms])
  have ns: "c \<noteq> cp CHR ''e''" "c \<noteq> cp CHR ''E''" "c \<noteq> cp CHR ''-''" "c \<noteq> cp CHR ''+''"
    using assms by (auto simp: py_isspace_def)
  show ?thesis
  proof (cases s)
    case Nil
    then show ?thesis using ns by (simp add: scan_exponent_def)
  next
    case c1: (Cons e r)
    show ?thesis
    proof (cases r)
      case Nil
      with c1 show ?thesis using ns nd by (simp add: scan_exponent_def)
    next
      case c2: (Cons d r')
      show ?thesis
      proof (cases r')
        case Nil
        with c1 c2 show ?thesis
          using ns nd
          by (simp add: scan_exponent_def Let_def takeWhile_snoc_not dropWhile_snoc_not)
      next
        case (Cons d' r'')
        with c1 c2 show ?thesis
          using ns nd
          by (simp add: scan_exponent_def Let_def takeWhile_snoc_not dropWhile_snoc_not)
      qed
    qed
  qed
qed

lemma scan_number_snoc:
  assumes "py_isspace c"
  shows "scan_number (s @ [c]) = map_option (apsnd (\<lambda>r. r @ [c])) (scan_number s)"
proof (cases s)
  case Nil
  have "c \<noteq> cp CHR ''-''" using assms by (auto simp: py_isspace_def)
  with Nil show ?thesis
    using space_not_digit[OF assms] by (simp add: scan_number_def scan_int_part_def)
next
  case (Cons d r)
  define x where "x = (if d = cp CHR ''-'' then r else d # r)"
  have a: "(if (d # r) @ [c] \<noteq> [] \<and> hd ((d # r) @ [c]) = cp CHR ''-'' then tl ((d # r) @ [c]) else (d # r) @ [c])
      = x @ [c]"
    by (simp add: x_def)
  have b: "(if d # r \<noteq> [] \<and> hd (d # r) = cp CHR ''-'' then tl (d # r) else d # r) = x"
    by (simp add: x_def)
  show ?thesis
  proof (cases "scan_int_part x")
    case None
    then show ?thesis
      unfolding Cons scan_number_def Let_def a b
      by (simp add: scan_int_part_snoc[OF assms])
  next
    case (Some ipr)
    obtain ip r1 where ipr: "ipr = (ip, r1)" by (cases ipr)
    obtain fp r2 where f: "scan_frac r1 = (fp, r2)" by (cases "scan_frac r1")
    show ?thesis
    proof (cases "scan_exponent r2")
      case None
      then show ?thesis
        unfolding Cons scan_number_def Let_def a b
        using Some ipr f
        by (simp add: scan_int_part_snoc[OF assms] scan_frac_snoc[OF assms]
            scan_exponent_snoc[OF assms])
    next
      case (Some er)
      obtain e r3 where er: "er = (e, r3)" by (cases er)
      then show ?thesis
        unfolding Cons scan_number_def Let_def a b
        using \<open>scan_int_part x = Some ipr\<close> ipr f Some
        by (simp add: scan_int_part_snoc[OF assms] scan_frac_snoc[OF assms]
            scan_exponent_snoc[OF assms])
    qed
  qed
qed

lemma starts_with_snoc:
  assumes "c \<notin> set p"
  shows "starts_with p (s @ [c]) \<longleftrightarrow> starts_with p s"
proof (cases "length p \<le> length s")
  case True
  then show ?thesis by (simp add: starts_with_def)
next
  case False
  then have l: "length s < length p" by simp
  have "take (length p) s \<noteq> p"
  proof
    assume "take (length p) s = p"
    then have "length (take (length p) s) = length p" by simp
    with l show False by simp
  qed
  moreover have "take (length p) (s @ [c]) \<noteq> p"
  proof
    assume e: "take (length p) (s @ [c]) = p"
    from l have "take (length p) (s @ [c]) = s @ [c]" by simp
    with e have "c \<in> set p" by (metis in_set_conv_decomp)
    with assms show False by simp
  qed
  ultimately show ?thesis by (simp add: starts_with_def)
qed

lemma scan_literal_snoc:
  assumes "c \<notin> set p" and "length p \<le> length s \<or> \<not> starts_with p s"
  shows "scan_literal p v (s @ [c]) = map_option (apsnd (\<lambda>r. r @ [c])) (scan_literal p v s)"
proof (cases "starts_with p s")
  case True
  then have "length (take (length p) s) = length p"
    by (simp add: starts_with_def)
  then have "length p \<le> length s" by simp
  with True show ?thesis
    by (simp add: scan_literal_def starts_with_snoc[OF assms(1)])
next
  case False
  then show ?thesis
    by (simp add: scan_literal_def starts_with_snoc[OF assms(1)])
qed

lemma scan_literal_snoc':
  assumes "c \<notin> set p"
  shows "scan_literal p v (s @ [c]) = map_option (apsnd (\<lambda>r. r @ [c])) (scan_literal p v s)"
proof (cases "starts_with p s")
  case True
  then have "length (take (length p) s) = length p"
    by (simp add: starts_with_def)
  then have "length p \<le> length s" by simp
  then show ?thesis by (rule scan_literal_snoc[OF assms disjI1])
next
  case False
  then show ?thesis by (rule scan_literal_snoc[OF assms disjI2])
qed

lemma orelse_map:
  "orelse (map_option f a) (map_option f b) = map_option f (orelse a b)"
  by (cases a) (simp_all add: orelse_def)

lemma scan_scalar_snoc:
  assumes "py_isspace c"
  shows "scan_scalar (s @ [c]) = map_option (apsnd (\<lambda>r. r @ [c])) (scan_scalar s)"
proof -
  have n: "c \<notin> set (ascii ''null'')" "c \<notin> set (ascii ''true'')" "c \<notin> set (ascii ''false'')"
    "c \<notin> set (ascii ''NaN'')" "c \<notin> set (ascii ''Infinity'')" "c \<notin> set (ascii ''-Infinity'')"
    using assms by (auto simp: py_isspace_def ascii_def)
  show ?thesis
    unfolding scan_scalar_def
    by (simp only: scan_literal_snoc'[OF n(1)] scan_literal_snoc'[OF n(2)]
        scan_literal_snoc'[OF n(3)] scan_literal_snoc'[OF n(4)] scan_literal_snoc'[OF n(5)]
        scan_literal_snoc'[OF n(6)] scan_number_snoc[OF assms] orelse_map)
qed

lemma scan_scalar_space:
  assumes "py_isspace c"
  shows "scan_scalar (c # s) = None"
proof -
  have "c \<noteq> cp CHR ''-''" "\<not> is_ascii_digit c"
    using assms by (auto simp: py_isspace_def is_ascii_digit_def)
  then have "scan_number (c # s) = None"
    by (simp add: scan_number_def scan_int_part_def)
  moreover have "\<not> starts_with (ascii p) (c # s)" if "p \<noteq> []" "\<not> py_isspace (cp (hd p))" for p
    using that assms by (cases p) (auto simp: starts_with_def ascii_def)
  then have "scan_literal (ascii ''null'') v1 (c # s) = None"
    "scan_literal (ascii ''true'') v2 (c # s) = None"
    "scan_literal (ascii ''false'') v3 (c # s) = None"
    "scan_literal (ascii ''NaN'') v4 (c # s) = None"
    "scan_literal (ascii ''Infinity'') v5 (c # s) = None"
    "scan_literal (ascii ''-Infinity'') v6 (c # s) = None" for v1 v2 v3 v4 v5 v6
    by (simp_all add: scan_literal_def py_isspace_def)
  ultimately show ?thesis
    by (simp add: scan_scalar_def orelse_def)
qed

lemma lex_space_Cons:
  assumes "py_isspace c"
  shows "lex (c # s) = (if json_space c then lex s else None)"
proof -
  have "c \<noteq> cp CHR ''{''" "c \<noteq> cp CHR ''}''" "c \<noteq> cp CHR ''[''" "c \<noteq> cp CHR '']''"
    "c \<noteq> cp CHR '',''" "c \<noteq> cp CHR '':''" "c \<noteq> cp CHR 0x22"
    using assms by (auto simp: py_isspace_def)
  then show ?thesis
    by (simp add: scan_scalar_space[OF assms])
qed

lemma lex_snoc:
  assumes "py_isspace c"
  shows "lex (s @ [c]) = (if json_space c then lex s else None)"
proof (induction s rule: lex.induct)
  case 1
  show ?case using lex_space_Cons[OF assms, of "[]"] by simp
next
  case (2 d ds)
  show ?case
  proof (cases "json_space d \<or> d = cp CHR ''{'' \<or> d = cp CHR ''}'' \<or> d = cp CHR ''['' \<or>
      d = cp CHR '']'' \<or> d = cp CHR '','' \<or> d = cp CHR '':''")
    case True
    then show ?thesis
      using 2(1-7) by (auto simp: json_space_def)
  next
    case False
    then have ns: "\<not> json_space d" and np: "d \<noteq> cp CHR ''{''" "d \<noteq> cp CHR ''}''"
      "d \<noteq> cp CHR ''[''" "d \<noteq> cp CHR '']''" "d \<noteq> cp CHR '',''" "d \<noteq> cp CHR '':''"
      by auto
    show ?thesis
    proof (cases "d = cp CHR 0x22")
      case True
      show ?thesis
      proof (cases "scan_string ds")
        case None
        with ns np True show ?thesis
          by (simp add: scan_string_snoc[OF assms])
      next
        case (Some a)
        obtain x r where a: "a = (x, r)" by (cases a)
        from 2(8)[OF ns np True Some[unfolded a] refl] ns np True Some a show ?thesis
          by (simp add: scan_string_snoc[OF assms])
      qed
    next
      case nq: False
      show ?thesis
      proof (cases "scan_scalar (d # ds)")
        case None
        with ns np nq show ?thesis
          using scan_scalar_snoc[OF assms, of "d # ds"] by simp
      next
        case (Some a)
        obtain v r where a: "a = (v, r)" by (cases a)
        from 2(9)[OF ns np nq Some[unfolded a] refl] ns np nq Some a show ?thesis
          using scan_scalar_snoc[OF assms, of "d # ds"] by simp
      qed
    qed
  qed
qed

lemma lex_lstrip: "lex s = Some toks \<Longrightarrow> lex (lstrip s) = Some toks"
proof (induction s)
  case Nil
  then show ?case by (simp add: lstrip_def)
next
  case (Cons c s)
  show ?case
  proof (cases "py_isspace c")
    case True
    with Cons.prems have "lex s = Some toks"
      using lex_space_Cons[OF True, of s] by (simp del: lex.simps split: if_splits)
    with Cons.IH True show ?thesis by (simp add: lstrip_def)
  next
    case False
    with Cons.prems show ?thesis by (simp add: lstrip_def)
  qed
qed

lemma lex_rstrip: "lex s = Some toks \<Longrightarrow> lex (rstrip s) = Some toks"
proof (induction s rule: rev_induct)
  case Nil
  then show ?case by (simp add: rstrip_def)
next
  case (snoc c s)
  show ?case
  proof (cases "py_isspace c")
    case True
    with snoc.prems have "lex s = Some toks"
      by (simp add: lex_snoc split: if_splits)
    with snoc.IH True show ?thesis by (simp add: rstrip_def)
  next
    case False
    with snoc.prems show ?thesis by (simp add: rstrip_def)
  qed
qed

lemma json_loads_strip: "json_loads s = Some v \<Longrightarrow> json_loads (strip s) = Some v"
proof -
  assume a: "json_loads s = Some v"
  then obtain toks where t: "lex s = Some toks" and r: "run (Reading EValue []) toks = Some v"
    by (auto simp: json_loads_def split: option.splits)
  from t have "lex (strip s) = Some toks"
    unfolding strip_def by (intro lex_rstrip lex_lstrip)
  with r show ?thesis by (simp add: json_loads_def)
qed

lemma json_loads_strip_nonempty: "json_loads s = Some v \<Longrightarrow> strip s \<noteq> []"
proof
  assume "json_loads s = Some v" and "strip s = []"
  then have "json_loads [] = Some v" using json_loads_strip by fastforce
  then show False by (simp add: json_loads_def)
qed

section \<open>The cleanup of a fenced text\<close>

lemma strip_idem: "strip (strip s) = strip s"
proof -
  obtain a b where x: "s = a @ strip s @ b" and a: "list_all py_isspace a" and b: "list_all py_isspace b"
    using strip_decompose by blast
  have "strip s = strip (a @ strip s @ b)" using x by simp
  also have "\<dots> = strip (strip s)" using a b by (rule strip_pad)
  finally show ?thesis by simp
qed

lemma lstrip_decompose:
  "lstrip s = strip s @ rev (takeWhile py_isspace (rev (lstrip s)))"
proof -
  have "rev (lstrip s) = takeWhile py_isspace (rev (lstrip s)) @ dropWhile py_isspace (rev (lstrip s))"
    by simp
  then have "lstrip s = rev (dropWhile py_isspace (rev (lstrip s))) @ rev (takeWhile py_isspace (rev (lstrip s)))"
    by (metis rev_append rev_rev_ident)
  then show ?thesis
    by (simp add: strip_def rstrip_def)
qed

lemma strip_ends:
  assumes "strip s \<noteq> []"
  shows "\<not> py_isspace (hd (strip s))" and "\<not> py_isspace (last (strip s))"
proof -
  have r: "strip s = rev (dropWhile py_isspace (rev (lstrip s)))"
    by (simp add: strip_def rstrip_def)
  have d: "dropWhile py_isspace (rev (lstrip s)) \<noteq> []"
    using assms r by auto
  then have "\<not> py_isspace (hd (dropWhile py_isspace (rev (lstrip s))))"
    by (rule hd_dropWhile)
  then show "\<not> py_isspace (last (strip s))"
    using d by (simp add: r last_rev)
  have l: "lstrip s \<noteq> []" using assms by (auto simp: strip_def rstrip_def)
  then have "\<not> py_isspace (hd (lstrip s))"
    unfolding lstrip_def by (rule hd_dropWhile)
  moreover have "hd (lstrip s) = hd (strip s)"
    using assms by (subst lstrip_decompose) simp
  ultimately show "\<not> py_isspace (hd (strip s))" by simp
qed

lemma strip_fixed:
  assumes "s \<noteq> []" and "\<not> py_isspace (hd s)" and "\<not> py_isspace (last s)"
  shows "strip s = s"
proof -
  have "lstrip s = s"
    using assms(1,2) by (cases s) (simp_all add: lstrip_def)
  moreover have "rstrip s = s"
  proof -
    have "rev s \<noteq> []" "\<not> py_isspace (hd (rev s))"
      using assms(1,3) by (simp_all add: hd_rev)
    then have "dropWhile py_isspace (rev s) = rev s"
      by (cases "rev s") simp_all
    then show ?thesis by (simp add: rstrip_def)
  qed
  ultimately show ?thesis by (simp add: strip_def)
qed

text \<open>The closing fence after a text that does not end with a blank.\<close>

lemma sub_close_fence_end:
  assumes "p = [] \<or> \<not> py_isspace (last p)" and "list_all py_isspace w"
  shows "sub_close_fence (p @ w @ fence) = p"
  using assms(1)
proof (induction p)
  case Nil
  have "dropWhile py_isspace (w @ fence) = fence"
    using assms(2) by (simp add: dropWhile_append2 list_all_iff fence_def ascii_def py_isspace_def)
  moreover have "w @ fence \<noteq> []" by (simp add: fence_def ascii_def)
  ultimately show ?case
    by (cases "w @ fence") (simp_all add: Let_def del: dropWhile.simps)
next
  case (Cons c p)
  then have lp: "\<not> py_isspace (last (c # p))" by simp
  then have ex: "\<exists>x\<in>set (c # p). \<not> py_isspace x"
    by (metis last_in_set list.distinct(1))
  then obtain x where x: "x \<in> set (c # p)" "\<not> py_isspace x" by blast
  have dw: "dropWhile py_isspace ((c # p) @ w @ fence) = dropWhile py_isspace (c # p) @ w @ fence"
    using x by (rule dropWhile_append1)
  have ne: "dropWhile py_isspace (c # p) \<noteq> []"
    using ex by (simp del: dropWhile.simps add: dropWhile_eq_Nil_conv)
  let ?r = "dropWhile py_isspace ((c # p) @ w @ fence)"
  have len: "3 < length ?r"
    unfolding dw using ne by (cases "dropWhile py_isspace (c # p)") (simp_all add: fence_def ascii_def)
  have lst: "last ?r = 96"
    unfolding dw by (simp add: fence_def ascii_def)
  have n1: "?r \<noteq> fence" using len by (auto simp: fence_def ascii_def)
  have n2: "?r \<noteq> fence @ [10]" using lst by (auto simp: fence_def ascii_def)
  have ih: "sub_close_fence (p @ w @ fence) = p"
  proof (rule Cons.IH)
    show "p = [] \<or> \<not> py_isspace (last p)"
      using lp by (cases p) simp_all
  qed
  have "sub_close_fence ((c # p) @ w @ fence) = c # sub_close_fence (p @ w @ fence)"
    using n1 n2 by (simp add: Let_def del: dropWhile.simps)
  with ih show ?case by simp
qed

lemma clean_json_fenced:
  assumes "strip t \<noteq> []"
  shows "clean_markdown_json (json_fenced t) = strip t"
proof -
  let ?core = "strip t"
  let ?b = "rev (takeWhile py_isspace (rev (lstrip t)))"
  have b: "list_all py_isspace ?b"
    by (auto simp: list_all_iff dest: set_takeWhileD)
  have lt: "lstrip t = ?core @ ?b" by (rule lstrip_decompose)
  have nsp: "\<not> list_all py_isspace t"
  proof
    assume "list_all py_isspace t"
    then have "lstrip t = []" by (simp add: lstrip_def list_all_iff)
    with assms show False by (simp add: strip_def rstrip_def)
  qed
  have s1: "strip (json_fenced t) = json_fenced t"
    by (rule strip_fixed) (simp_all add: json_fenced_def fence_def ascii_def py_isspace_def)
  have "sub_open_fence (json_fenced t) = dropWhile py_isspace ([10] @ t @ [10] @ fence)"
    by (simp add: sub_open_fence_def json_fenced_def fence_def ascii_def starts_with_def
        ci_starts_with_def ci_eq_def Let_def del: dropWhile.simps)
  also have "\<dots> = lstrip (t @ [10] @ fence)"
    by (simp add: lstrip_def py_isspace_def)
  also have "\<dots> = lstrip t @ [10] @ fence"
    using nsp by (rule lstrip_append_nonspace)
  finally have s2: "sub_open_fence (json_fenced t) = ?core @ (?b @ [10]) @ fence"
    using lt by simp
  have hd_core: "\<not> py_isspace (hd ?core)" and last_core: "\<not> py_isspace (last ?core)"
    using strip_ends[OF assms] by simp_all
  have s3: "strip (?core @ (?b @ [10]) @ fence) = ?core @ (?b @ [10]) @ fence"
  proof (rule strip_fixed)
    show "?core @ (?b @ [10]) @ fence \<noteq> []" using assms by simp
    show "\<not> py_isspace (hd (?core @ (?b @ [10]) @ fence))"
      using assms hd_core by simp
    show "\<not> py_isspace (last (?core @ (?b @ [10]) @ fence))"
      by (simp add: fence_def ascii_def py_isspace_def)
  qed
  have s4: "sub_close_fence (?core @ (?b @ [10]) @ fence) = ?core"
  proof (rule sub_close_fence_end)
    show "?core = [] \<or> \<not> py_isspace (last ?core)" using last_core by simp
    show "list_all py_isspace (?b @ [10])" using b by (simp add: py_isspace_def)
  qed
  show ?thesis
    unfolding clean_markdown_json_def s1 s2 s3 s4 by (rule strip_idem)
qed

section \<open>Valid JSON in a fenced block: C4\<close>

text \<open>
  C4: for every valid JSON text, the tolerant parser on the text wrapped in a
  \<^verbatim>\<open>```json\<close> fenced block returns the value of the direct JSON parse of the text.
\<close>

theorem fenced_json_parses:
  assumes "json_loads t = Some v"
  shows "tolerant_parse_json_from_text L (json_fenced t) = Inr v"
proof -
  have "clean_markdown_json (json_fenced t) = strip t"
    using assms by (intro clean_json_fenced json_loads_strip_nonempty)
  moreover have "json_loads (strip t) = Some v"
    using assms by (rule json_loads_strip)
  ultimately show ?thesis
    by (simp add: tolerant_parse_json_from_text_def)
qed

theorem fenced_json_parses_witness:
  \<open>json_loads (ascii ''{"a": [1, 2.5, null]}'')
     = Some (JObj [(ascii ''a'', JArr [JInt 1, JFloat (Fin 2.5), JNull])]) \<and>
   tolerant_parse_json_from_text ascii_lib (json_fenced (ascii ''{"a": [1, 2.5, null]}''))
     = Inr (JObj [(ascii ''a'', JArr [JInt 1, JFloat (Fin 2.5), JNull])])\<close>
proof -
  have h: \<open>json_loads (ascii ''{"a": [1, 2.5, null]}'')
     = Some (JObj [(ascii ''a'', JArr [JInt 1, JFloat (Fin 2.5), JNull])])\<close>
    by (simp add: str_defs json_defs float_defs Let_def)
  from fenced_json_parses[OF h, of ascii_lib] h show ?thesis
    by simp
qed

section \<open>A trailing comma: C6\<close>

lemma remove_trailing_commas_id:
  "\<not> comma_closer s \<Longrightarrow> remove_trailing_commas s = s"
proof (induction s rule: remove_trailing_commas.induct)
  case 1
  then show ?case by simp
next
  case (2 c cs)
  from "2.prems" have nc: "\<not> comma_closer cs" by simp
  show ?case
  proof (cases "c = cp CHR '',''")
    case False
    with "2.IH"(4)[OF False nc] show ?thesis by simp
  next
    case True
    show ?thesis
    proof (cases "dropWhile py_isspace cs")
      case Nil
      with True "2.IH"(1)[OF True Nil nc] show ?thesis
        by (simp del: dropWhile_eq_Nil_conv)
    next
      case (Cons d r)
      with True "2.prems" have d: "\<not> (d = cp CHR ''}'' \<or> d = cp CHR '']'')"
        by simp
      with True Cons "2.IH"(3)[OF True Cons d nc] show ?thesis by simp
    qed
  qed
qed

lemma remove_trailing_commas_insert:
  assumes "list_all py_isspace w"
  shows "\<not> comma_closer (a @ [cp CHR ''}''] @ b) \<Longrightarrow>
    remove_trailing_commas (a @ cp CHR '','' # w @ [cp CHR ''}''] @ b) = a @ [cp CHR ''}''] @ b"
proof (induction a)
  case Nil
  then have "\<not> comma_closer b" by simp
  then have b: "remove_trailing_commas b = b" by (rule remove_trailing_commas_id)
  have "dropWhile py_isspace (w @ 125 # b) = 125 # b"
    using assms by (simp add: dropWhile_append2 list_all_iff py_isspace_def)
  with b show ?case by simp
next
  case (Cons c a)
  from Cons.prems have nc: "\<not> comma_closer (a @ [cp CHR ''}''] @ b)" by simp
  note ih = Cons.IH[OF nc]
  show ?case
  proof (cases "c = cp CHR '',''")
    case False
    with ih show ?thesis by simp
  next
    case True
    let ?x = "a @ cp CHR '','' # w @ [cp CHR ''}''] @ b"
    have "\<exists>d r. dropWhile py_isspace ?x = d # r \<and> \<not> (d = cp CHR ''}'' \<or> d = cp CHR '']'')"
    proof (cases "list_all py_isspace a")
      case True
      then have "dropWhile py_isspace ?x = cp CHR '','' # w @ [cp CHR ''}''] @ b"
        by (simp add: dropWhile_append2 list_all_iff py_isspace_def)
      then show ?thesis by simp
    next
      case False
      then obtain x where x: "x \<in> set a" "\<not> py_isspace x"
        by (auto simp: list_all_iff)
      then have d1: "dropWhile py_isspace ?x = dropWhile py_isspace a @ cp CHR '','' # w @ [cp CHR ''}''] @ b"
        by (rule dropWhile_append1)
      from x have d2: "dropWhile py_isspace (a @ [cp CHR ''}''] @ b) = dropWhile py_isspace a @ [cp CHR ''}''] @ b"
        by (rule dropWhile_append1)
      have ne: "dropWhile py_isspace a \<noteq> []"
        using x by (auto simp: dropWhile_eq_Nil_conv)
      then obtain d r where dr: "dropWhile py_isspace a = d # r"
        by (cases "dropWhile py_isspace a") auto
      from Cons.prems True d2 dr have "\<not> (d = cp CHR ''}'' \<or> d = cp CHR '']'')"
        by simp
      with d1 dr show ?thesis by simp
    qed
    then obtain d r where "dropWhile py_isspace ?x = d # r"
      and "\<not> (d = cp CHR ''}'' \<or> d = cp CHR '']'')"
      by blast
    with True ih show ?thesis by simp
  qed
qed

lemma last_dropWhile:
  "dropWhile P xs \<noteq> [] \<Longrightarrow> last (dropWhile P xs) = last xs"
  by (metis last_appendR takeWhile_dropWhile_id)

lemma sub_close_fence_id:
  "last s \<noteq> 96 \<Longrightarrow> last s \<noteq> 10 \<Longrightarrow> sub_close_fence s = s"
proof (induction s)
  case Nil
  then show ?case by simp
next
  case (Cons c cs)
  let ?r = "dropWhile py_isspace (c # cs)"
  have n1: "?r \<noteq> fence"
  proof
    assume e: "?r = fence"
    then have "?r \<noteq> []" by (simp add: fence_def ascii_def)
    then have "last ?r = last (c # cs)" by (rule last_dropWhile)
    with e Cons.prems(1) show False by (simp add: fence_def ascii_def)
  qed
  have n2: "?r \<noteq> fence @ [10]"
  proof
    assume e: "?r = fence @ [10]"
    then have "?r \<noteq> []" by simp
    then have "last ?r = last (c # cs)" by (rule last_dropWhile)
    with e Cons.prems(2) show False by simp
  qed
  have ih: "sub_close_fence cs = cs"
  proof (cases cs)
    case Nil
    then show ?thesis by simp
  next
    case (Cons d ds)
    with Cons.prems Cons.IH show ?thesis by simp
  qed
  from n1 n2 ih show ?case
    by (simp add: Let_def del: dropWhile.simps)
qed

lemma up_to_last_id: "s \<noteq> [] \<Longrightarrow> last s = x \<Longrightarrow> up_to_last x s = s"
proof -
  assume "s \<noteq> []" and "last s = x"
  then have "rev s \<noteq> []" "hd (rev s) = x" by (simp_all add: hd_rev)
  then have "dropWhile (\<lambda>c. c \<noteq> x) (rev s) = rev s"
    by (cases "rev s") simp_all
  then show ?thesis by (simp add: up_to_last_def)
qed

lemma enclosed_clean:
  assumes "enclosed s"
  shows "clean_markdown_json s = s"
proof -
  from assms have ne: "s \<noteq> []" by (auto simp: enclosed_def)
  from assms have h: "hd s = 123 \<or> hd s = 91" and l: "last s = 125 \<or> last s = 93"
    by (auto simp: enclosed_def)
  have st: "strip s = s"
    using ne h l by (intro strip_fixed) (auto simp: py_isspace_def)
  have "\<not> starts_with fence s"
    using ne h by (cases s) (auto simp: starts_with_def fence_def ascii_def)
  then have so: "sub_open_fence s = s"
    by (simp add: sub_open_fence_def)
  have sc: "sub_close_fence s = s"
    using l by (intro sub_close_fence_id) auto
  show ?thesis
    by (simp add: clean_markdown_json_def st so sc)
qed

lemma enclosed_candidate:
  assumes "enclosed s"
  shows "extract_first_json_candidate s = Inr s"
proof -
  from assms obtain c cs where s: "s = c # cs" and ne: "cs \<noteq> []"
    by (cases s; cases "tl s") (auto simp: enclosed_def)
  from assms s ne have hl: "c = 123 \<and> last cs = 125 \<or> c = 91 \<and> last cs = 93"
    by (auto simp: enclosed_def)
  have "search_candidate (c # cs) = Some (c # cs)"
  proof (cases "c = 123")
    case True
    with hl have l: "last cs = 125" by simp
    then have "125 \<in> set cs" using ne by (metis last_in_set)
    with True l ne show ?thesis by (simp add: up_to_last_id)
  next
    case False
    with hl have c: "c = 91" and l: "last cs = 93" by simp_all
    then have "93 \<in> set cs" using ne by (metis last_in_set)
    with c l ne show ?thesis by (simp add: up_to_last_id)
  qed
  moreover have "strip s = s"
    using assms hl s ne by (intro strip_fixed) (auto simp: py_isspace_def)
  ultimately show ?thesis
    using enclosed_clean[OF assms] s by (simp add: extract_first_json_candidate_def)
qed

lemma json_loads_pad:
  assumes "list_all json_space l" and "list_all json_space r"
  shows "json_loads (l @ s @ r) = json_loads s"
proof -
  have sp: "json_space c \<Longrightarrow> py_isspace c" for c
    by (auto simp: json_space_def py_isspace_def)
  have a: "lex (l @ x) = lex x" for x
    using assms(1)
  proof (induction l)
    case Nil
    then show ?case by simp
  next
    case (Cons c l)
    then show ?case
      using lex_space_Cons[OF sp, of c "l @ x"] by (simp del: lex.simps)
  qed
  have b: "lex (x @ r) = lex x" for x
    using assms(2)
  proof (induction r arbitrary: x rule: rev_induct)
    case Nil
    then show ?case by simp
  next
    case (snoc c r)
    then have "lex ((x @ r) @ [c]) = lex (x @ r)"
      using lex_snoc[OF sp, of c "x @ r"] by simp
    with snoc show ?case by simp
  qed
  show ?thesis
    by (simp add: json_loads_def a b)
qed

lemma clean_pad:
  assumes "list_all json_space l" and "list_all json_space r" and "enclosed s"
  shows "clean_markdown_json (l @ s @ r) = s"
proof -
  have sp: "list_all py_isspace l" "list_all py_isspace r"
    using assms(1,2) by (auto simp: list_all_iff json_space_def py_isspace_def)
  have p: "strip (l @ s @ r) = strip s" using sp by (rule strip_pad)
  have "clean_markdown_json (l @ s @ r) = clean_markdown_json s"
    unfolding clean_markdown_json_def p ..
  then show ?thesis using enclosed_clean[OF assms(3)] by simp
qed

text \<open>
  C6, as stated: for every text that is valid JSON except for one trailing comma before a
  closing brace, the tolerant parser succeeds and the repair does not alter the content
  of the quoted strings. It fails on \<^verbatim>\<open>{"a":"x,}",}\<close>: the parser succeeds, but the
  pattern of \<^verbatim>\<open>remove_trailing_commas\<close> does not know strings, and the string
  \<^verbatim>\<open>x,}\<close> of the valid text comes back as \<^verbatim>\<open>x}\<close>.
\<close>

theorem trailing_comma_counterexample:
  \<open>json_loads (ascii ''{"a":"x,}"}'') = Some (JObj [(ascii ''a'', JStr (ascii ''x,}''))]) \<and>
   json_loads (ascii ''{"a":"x,}",}'') = None \<and>
   tolerant_parse_json_from_text ascii_lib (ascii ''{"a":"x,}",}'')
     = Inr (JObj [(ascii ''a'', JStr (ascii ''x}''))])\<close>
  by (simp add: str_defs json_defs parse_defs Let_def)

text \<open>
  C6, amended: take a JSON object or array text, with JSON blanks around it at most, in
  which no comma is followed by blanks and a closing brace or bracket, inside a quoted
  string in particular. For every text obtained from it by writing a comma, and blanks
  if any, before one of its closing braces, and that is not valid JSON itself, the
  tolerant parser succeeds and returns the value of the text without the comma.
\<close>

theorem trailing_comma_repaired:
  assumes "list_all json_space l" and "list_all json_space r"
    and "list_all py_isspace w"
    and "enclosed (a @ [cp CHR ''}''] @ b)"
    and "\<not> comma_closer (a @ [cp CHR ''}''] @ b)"
    and "json_loads (l @ (a @ [cp CHR ''}''] @ b) @ r) = Some v"
    and "json_loads (l @ (a @ cp CHR '','' # w @ [cp CHR ''}''] @ b) @ r) = None"
  shows "tolerant_parse_json_from_text L (l @ (a @ cp CHR '','' # w @ [cp CHR ''}''] @ b) @ r) = Inr v"
proof -
  let ?good = "a @ [cp CHR ''}''] @ b"
  let ?bad = "a @ cp CHR '','' # w @ [cp CHR ''}''] @ b"
  have ne: "a \<noteq> []"
    using assms(4) by (auto simp: enclosed_def)
  have e: "enclosed ?bad"
  proof -
    from ne have "hd ?bad = hd ?good" by (cases a) simp_all
    moreover have "last ?bad = last ?good" by simp
    moreover have "2 \<le> length ?bad" using ne by (cases a) simp_all
    ultimately show ?thesis using assms(4) by (simp add: enclosed_def)
  qed
  have c: "clean_markdown_json (l @ ?bad @ r) = ?bad"
    using assms(1,2) e by (rule clean_pad)
  have n1: "json_loads ?bad = None"
    using assms(7) json_loads_pad[OF assms(1,2), of ?bad] by simp
  have g: "json_loads ?good = Some v"
    using assms(6) json_loads_pad[OF assms(1,2), of ?good] by simp
  have cand: "extract_first_json_candidate (l @ ?bad @ r) = Inr ?bad"
    using enclosed_candidate[OF e] c enclosed_clean[OF e]
    by (simp add: extract_first_json_candidate_def)
  have rep: "remove_trailing_commas ?bad = ?good"
    using assms(3,5) by (rule remove_trailing_commas_insert)
  have "parse_candidate L ?bad = Some v"
    unfolding parse_candidate_def n1 rep g by (simp add: orelse_def)
  with c n1 assms(7) cand show ?thesis
    by (simp add: tolerant_parse_json_from_text_def)
qed

theorem trailing_comma_repaired_witness:
  \<open>list_all json_space [] \<and> list_all json_space [10] \<and> list_all py_isspace [32] \<and>
   enclosed (ascii ''{"a":"x, y","b":[1,2]'' @ [cp CHR ''}''] @ []) \<and>
   \<not> comma_closer (ascii ''{"a":"x, y","b":[1,2]'' @ [cp CHR ''}''] @ []) \<and>
   json_loads ([] @ (ascii ''{"a":"x, y","b":[1,2]'' @ [cp CHR ''}''] @ []) @ [10])
     = Some (JObj [(ascii ''a'', JStr (ascii ''x, y'')), (ascii ''b'', JArr [JInt 1, JInt 2])]) \<and>
   json_loads ([] @ (ascii ''{"a":"x, y","b":[1,2]'' @ cp CHR '','' # [32] @ [cp CHR ''}''] @ []) @ [10]) = None \<and>
   tolerant_parse_json_from_text ascii_lib
       ([] @ (ascii ''{"a":"x, y","b":[1,2]'' @ cp CHR '','' # [32] @ [cp CHR ''}''] @ []) @ [10])
     = Inr (JObj [(ascii ''a'', JStr (ascii ''x, y'')), (ascii ''b'', JArr [JInt 1, JInt 2])])\<close>
proof -
  have h1: "list_all json_space []" and h2: "list_all json_space [10]"
    and h3: "list_all py_isspace [32]"
    by (simp_all add: json_space_def py_isspace_def)
  have h4: \<open>enclosed (ascii ''{"a":"x, y","b":[1,2]'' @ [cp CHR ''}''] @ [])\<close>
    by (simp add: enclosed_def ascii_def)
  have h5: \<open>\<not> comma_closer (ascii ''{"a":"x, y","b":[1,2]'' @ [cp CHR ''}''] @ [])\<close>
    by (simp add: ascii_def py_isspace_def)
  have h6: \<open>json_loads ([] @ (ascii ''{"a":"x, y","b":[1,2]'' @ [cp CHR ''}''] @ []) @ [10])
     = Some (JObj [(ascii ''a'', JStr (ascii ''x, y'')), (ascii ''b'', JArr [JInt 1, JInt 2])])\<close>
    by (simp add: str_defs json_defs Let_def)
  have h7: \<open>json_loads ([] @ (ascii ''{"a":"x, y","b":[1,2]'' @ cp CHR '','' # [32] @ [cp CHR ''}''] @ []) @ [10]) = None\<close>
    by (simp add: str_defs json_defs Let_def)
  from trailing_comma_repaired[OF h1 h2 h3 h4 h5 h6 h7, of ascii_lib] h1 h2 h3 h4 h5 h6 h7
  show ?thesis by simp
qed

end
